theory Spec2Isabelle
  imports Complex_Main
begin

section \<open>The formula generator worklet\<close>

text \<open>
  Source: \<^verbatim>\<open>formula-generator.worklet.ts\<close>, class \<^verbatim>\<open>FormulaGeneratorProcessor\<close>.

  JavaScript numbers are idealised as reals (no rounding, no NaN, no infinities); a
  \<^verbatim>\<open>Float32Array\<close> is a list of reals.  \<^verbatim>\<open>Math.random()\<close> reads the next element of a
  sequence of draws that is part of the state (field \<open>randoms\<close>), so that the model stays a
  function.

  Field names are those of the source.  The single-letter names are prefixed, because a
  record field is a global constant here: \<^verbatim>\<open>p.I\<close>, \<^verbatim>\<open>p.r\<close>, \<^verbatim>\<open>p.k\<close>, \<^verbatim>\<open>p.N\<close>, \<^verbatim>\<open>p.f\<close> are
  \<open>pI\<close>, \<open>pr\<close>, \<open>pk\<close>, \<open>pN\<close>, \<open>pf\<close>, and \<^verbatim>\<open>this.t\<close>, \<^verbatim>\<open>this.p\<close> are \<open>this_t\<close>, \<open>this_p\<close>.
  The field \<open>gain\<close> is optional, since the source reads it as \<^verbatim>\<open>p.gain ?? 0.2\<close>.
\<close>

record FormulaParams =
  gain :: "real option"
  fc :: real
  fm :: real
  pI :: real
  f1 :: real
  f2 :: real
  base :: real
  depth :: real
  pr :: real
  lfoHz :: real
  f0 :: real
  pk :: real
  fund :: real
  pN :: real
  move :: real
  pf :: real
  f2pm :: real
  fbeat :: real
  df :: real
  fd :: real
  alpha :: real
  fq :: real
  Aq :: real
  wq :: real
  sigma :: real
  rho :: real
  beta :: real
  lBase :: real
  lFreqScale :: real
  lAmp :: real
  ksFreq :: real
  ksDamp :: real
  ksBright :: real
  bcFreq :: real
  bcBits :: real
  bcDown :: real
  nCut :: real
  pinkBright :: real
  brownStep :: real
  velvetDensity :: real
  rossA :: real
  rossB :: real
  rossC :: real
  rossBase :: real
  rossFreqScale :: real
  rossAmp :: real
  shepBase :: real
  shepSpeed :: real
  shepOctaves :: real

text \<open>
  \<^verbatim>\<open>type WorkletMessage = { type: 'set'; params: Partial<FormulaParams> } | { type: 'reset' }\<close>.
  The partial parameter object is the list of its own properties, in their order.
\<close>

datatype WorkletMessage = MsgSet "(string \<times> real) list" | MsgReset

type_synonym rng = "nat \<Rightarrow> real"

record FormulaGeneratorProcessor =
  formula :: string
  sr :: real
  this_t :: real
  phase :: real
  logi :: real
  lx :: real
  ly :: real
  lz :: real
  ksBuf :: "real list option"
  ksIdx :: nat
  ksN :: nat
  nlp :: real
  pinkB0 :: real
  pinkB1 :: real
  pinkB2 :: real
  pinkB3 :: real
  pinkB4 :: real
  pinkB5 :: real
  pinkB6 :: real
  brownVal :: real
  velvetCounter :: real
  velvetNext :: real
  rx :: real
  ry :: real
  rz :: real
  shepardPhases :: "real list"
  shepardT :: real
  this_p :: FormulaParams
  randoms :: rng

definition Math_random :: "rng \<Rightarrow> real \<times> rng" where
  "Math_random g = (g 0, \<lambda>n. g (Suc n))"

definition twoPi :: real where
  "twoPi = 2 * pi"

definition clamp :: "real \<Rightarrow> real \<Rightarrow> real \<Rightarrow> real" where
  "clamp x a b = max a (min b x)"

text \<open>The remainder \<^verbatim>\<open>a % b\<close> of JavaScript on numbers: the quotient is truncated towards zero.\<close>

definition js_rem :: "real \<Rightarrow> real \<Rightarrow> real" where
  "js_rem a b = a - b * of_int (if 0 \<le> a / b then \<lfloor>a / b\<rfloor> else \<lceil>a / b\<rceil>)"

text \<open>The default parameter object of the constructor.\<close>

definition default_params :: FormulaParams where
  "default_params = \<lparr>
     gain = Some 0.2, fc = 220, fm = 2, pI = 2, f1 = 220, f2 = 221,
     base = 110, depth = 330, pr = 3.86, lfoHz = 40, f0 = 55, pk = 0.15,
     fund = 110, pN = 12, move = 0.35, pf = 220, f2pm = 3, fbeat = 220, df = 0.8,
     fd = 110, alpha = 3.0, fq = 120, Aq = 220, wq = 0.8,
     sigma = 10, rho = 28, beta = 2.6667, lBase = 120, lFreqScale = 40, lAmp = 0.25,
     ksFreq = 110, ksDamp = 0.985, ksBright = 0.5,
     bcFreq = 220, bcBits = 6, bcDown = 8, nCut = 800, pinkBright = 0.5,
     brownStep = 0.02, velvetDensity = 2000,
     rossA = 0.2, rossB = 0.2, rossC = 5.7, rossBase = 120, rossFreqScale = 30,
     rossAmp = 0.25, shepBase = 55, shepSpeed = 0.1, shepOctaves = 6 \<rparr>"

text \<open>
  One property assignment of \<^verbatim>\<open>Object.assign(this.p, msg.params)\<close>.  A key that is not a
  field of \<^verbatim>\<open>FormulaParams\<close> becomes a property that the processor never reads.
\<close>

definition assign_key :: "string \<Rightarrow> real \<Rightarrow> FormulaParams \<Rightarrow> FormulaParams" where
  "assign_key key v p =
    (if key = ''gain'' then p\<lparr>gain := Some v\<rparr>
     else if key = ''fc'' then p\<lparr>fc := v\<rparr>
     else if key = ''fm'' then p\<lparr>fm := v\<rparr>
     else if key = ''I'' then p\<lparr>pI := v\<rparr>
     else if key = ''f1'' then p\<lparr>f1 := v\<rparr>
     else if key = ''f2'' then p\<lparr>f2 := v\<rparr>
     else if key = ''base'' then p\<lparr>base := v\<rparr>
     else if key = ''depth'' then p\<lparr>depth := v\<rparr>
     else if key = ''r'' then p\<lparr>pr := v\<rparr>
     else if key = ''lfoHz'' then p\<lparr>lfoHz := v\<rparr>
     else if key = ''f0'' then p\<lparr>f0 := v\<rparr>
     else if key = ''k'' then p\<lparr>pk := v\<rparr>
     else if key = ''fund'' then p\<lparr>fund := v\<rparr>
     else if key = ''N'' then p\<lparr>pN := v\<rparr>
     else if key = ''move'' then p\<lparr>move := v\<rparr>
     else if key = ''f'' then p\<lparr>pf := v\<rparr>
     else if key = ''f2pm'' then p\<lparr>f2pm := v\<rparr>
     else if key = ''fbeat'' then p\<lparr>fbeat := v\<rparr>
     else if key = ''df'' then p\<lparr>df := v\<rparr>
     else if key = ''fd'' then p\<lparr>fd := v\<rparr>
     else if key = ''alpha'' then p\<lparr>alpha := v\<rparr>
     else if key = ''fq'' then p\<lparr>fq := v\<rparr>
     else if key = ''Aq'' then p\<lparr>Aq := v\<rparr>
     else if key = ''wq'' then p\<lparr>wq := v\<rparr>
     else if key = ''sigma'' then p\<lparr>sigma := v\<rparr>
     else if key = ''rho'' then p\<lparr>rho := v\<rparr>
     else if key = ''beta'' then p\<lparr>beta := v\<rparr>
     else if key = ''lBase'' then p\<lparr>lBase := v\<rparr>
     else if key = ''lFreqScale'' then p\<lparr>lFreqScale := v\<rparr>
     else if key = ''lAmp'' then p\<lparr>lAmp := v\<rparr>
     else if key = ''ksFreq'' then p\<lparr>ksFreq := v\<rparr>
     else if key = ''ksDamp'' then p\<lparr>ksDamp := v\<rparr>
     else if key = ''ksBright'' then p\<lparr>ksBright := v\<rparr>
     else if key = ''bcFreq'' then p\<lparr>bcFreq := v\<rparr>
     else if key = ''bcBits'' then p\<lparr>bcBits := v\<rparr>
     else if key = ''bcDown'' then p\<lparr>bcDown := v\<rparr>
     else if key = ''nCut'' then p\<lparr>nCut := v\<rparr>
     else if key = ''pinkBright'' then p\<lparr>pinkBright := v\<rparr>
     else if key = ''brownStep'' then p\<lparr>brownStep := v\<rparr>
     else if key = ''velvetDensity'' then p\<lparr>velvetDensity := v\<rparr>
     else if key = ''rossA'' then p\<lparr>rossA := v\<rparr>
     else if key = ''rossB'' then p\<lparr>rossB := v\<rparr>
     else if key = ''rossC'' then p\<lparr>rossC := v\<rparr>
     else if key = ''rossBase'' then p\<lparr>rossBase := v\<rparr>
     else if key = ''rossFreqScale'' then p\<lparr>rossFreqScale := v\<rparr>
     else if key = ''rossAmp'' then p\<lparr>rossAmp := v\<rparr>
     else if key = ''shepBase'' then p\<lparr>shepBase := v\<rparr>
     else if key = ''shepSpeed'' then p\<lparr>shepSpeed := v\<rparr>
     else if key = ''shepOctaves'' then p\<lparr>shepOctaves := v\<rparr>
     else p)"

fun Object_assign :: "FormulaParams \<Rightarrow> (string \<times> real) list \<Rightarrow> FormulaParams" where
  "Object_assign p [] = p"
| "Object_assign p ((key, v) # kvs) = Object_assign (assign_key key v p) kvs"

subsection \<open>The Karplus-Strong buffer\<close>

text \<open>\<^verbatim>\<open>for (let i = 0; i < N; i++) this.ksBuf[i] = Math.random() * 2 - 1\<close>\<close>

fun fill_noise :: "nat \<Rightarrow> rng \<Rightarrow> real list \<times> rng" where
  "fill_noise 0 g = ([], g)"
| "fill_noise (Suc n) g =
    (let (u, g1) = Math_random g;
         (rest, g2) = fill_noise n g1
     in ((u * 2 - 1) # rest, g2))"

text \<open>
  The buffer length of \<^verbatim>\<open>initKS\<close>:
  \<^verbatim>\<open>freq = Math.max(20, p.ksFreq || 110); N = Math.max(2, Math.floor(this.sr / freq))\<close>.
  A number is falsy when it is zero.
\<close>

definition ksLength :: "FormulaGeneratorProcessor \<Rightarrow> nat" where
  "ksLength s =
    (let p = this_p s;
         freq = max 20 (if ksFreq p = 0 then 110 else ksFreq p)
     in nat (max 2 \<lfloor>sr s / freq\<rfloor>))"

definition initKS :: "bool \<Rightarrow> FormulaGeneratorProcessor \<Rightarrow> FormulaGeneratorProcessor" where
  "initKS force s =
    (let N = ksLength s
     in if \<not> force \<and> ksBuf s \<noteq> None \<and> ksN s = N then s
        else (let (buf, g) = fill_noise N (randoms s)
              in s\<lparr>ksN := N, ksBuf := Some buf, ksIdx := 0, randoms := g\<rparr>))"

subsection \<open>Reset, messages and construction\<close>

definition resetState :: "FormulaGeneratorProcessor \<Rightarrow> FormulaGeneratorProcessor" where
  "resetState s =
    (let s1 = s\<lparr>this_t := 0, phase := 0, logi := 0.33, lx := 0.1, ly := 0.0, lz := 0.0,
               nlp := 0\<rparr>;
         s2 = initKS True s1
     in s2\<lparr>pinkB0 := 0, pinkB1 := 0, pinkB2 := 0, pinkB3 := 0, pinkB4 := 0, pinkB5 := 0,
           pinkB6 := 0, brownVal := 0, velvetCounter := 0, velvetNext := 0,
           rx := 0.1, ry := 0.0, rz := 0.0,
           shepardPhases := map (\<lambda>_. 0) (shepardPhases s2), shepardT := 0\<rparr>)"

text \<open>The handler \<^verbatim>\<open>this.port.onmessage\<close> installed by the constructor.\<close>

definition onmessage :: "WorkletMessage \<Rightarrow> FormulaGeneratorProcessor \<Rightarrow> FormulaGeneratorProcessor" where
  "onmessage msg s =
    (case msg of
       MsgSet params \<Rightarrow> s\<lparr>this_p := Object_assign (this_p s) params\<rparr>
     | MsgReset \<Rightarrow> resetState s)"

text \<open>
  The constructor.  Its inputs are \<^verbatim>\<open>processorOptions.formula\<close> (absent or given),
  \<^verbatim>\<open>processorOptions.params\<close>, the global \<^verbatim>\<open>sampleRate\<close> and the random draws to come.
  \<^verbatim>\<open>o.formula || 'fm'\<close>: the empty string is falsy.
\<close>

definition new_FormulaGeneratorProcessor ::
    "string option \<Rightarrow> (string \<times> real) list \<Rightarrow> real \<Rightarrow> rng \<Rightarrow> FormulaGeneratorProcessor" where
  "new_FormulaGeneratorProcessor o_formula o_params sampleRate g =
    initKS True
      \<lparr> formula = (case o_formula of None \<Rightarrow> ''fm'' | Some fo \<Rightarrow> if fo = [] then ''fm'' else fo),
        sr = sampleRate, this_t = 0, phase = 0, logi = 0.33,
        lx = 0.1, ly = 0.0, lz = 0.0,
        ksBuf = None, ksIdx = 0, ksN = 0, nlp = 0,
        pinkB0 = 0, pinkB1 = 0, pinkB2 = 0, pinkB3 = 0, pinkB4 = 0, pinkB5 = 0, pinkB6 = 0,
        brownVal = 0, velvetCounter = 0, velvetNext = 0,
        rx = 0.1, ry = 0.0, rz = 0.0,
        shepardPhases = replicate 10 0, shepardT = 0,
        this_p = Object_assign default_params o_params,
        randoms = g \<rparr>"

subsection \<open>The sample loop of \<^verbatim>\<open>process\<close>\<close>

text \<open>
  \<^verbatim>\<open>process\<close> copies \<^verbatim>\<open>this.phase\<close>, \<^verbatim>\<open>this.t\<close>, \<^verbatim>\<open>this.logi\<close>, \<^verbatim>\<open>this.lx\<close>, \<^verbatim>\<open>this.ly\<close>,
  \<^verbatim>\<open>this.lz\<close> and \<^verbatim>\<open>this.nlp\<close> into local variables before the loop and stores them back
  after it.  The loop never reads these seven fields through \<^verbatim>\<open>this\<close>, so the locals are
  represented by the fields themselves.  Each case of the \<^verbatim>\<open>switch\<close> is one function from
  the state to the value of \<^verbatim>\<open>x\<close> and the next state.
\<close>

definition case_fm :: "FormulaGeneratorProcessor \<Rightarrow> real \<times> FormulaGeneratorProcessor" where
  "case_fm s =
    (let p = this_p s; t = this_t s
     in (sin (twoPi * fc p * t + pI p * sin (twoPi * fm p * t)), s))"

definition logistic_step :: "FormulaGeneratorProcessor \<Rightarrow> int" where
  "logistic_step s = max 1 \<lfloor>sr s / max 0.001 (lfoHz (this_p s))\<rfloor>"

definition case_logistic :: "nat \<Rightarrow> FormulaGeneratorProcessor \<Rightarrow> real \<times> FormulaGeneratorProcessor" where
  "case_logistic i s =
    (let p = this_p s;
         step = logistic_step s;
         logi1 = (if int i mod step = 0 then clamp (pr p * logi s * (1 - logi s)) 0 1 else logi s);
         f = base p + depth p * (logi1 - 0.5);
         phase1 = phase s + twoPi * (max 0 f / sr s)
     in (sin phase1, s\<lparr>logi := logi1, phase := phase1\<rparr>))"

definition case_gliss :: "FormulaGeneratorProcessor \<Rightarrow> real \<times> FormulaGeneratorProcessor" where
  "case_gliss s =
    (let p = this_p s;
         f = f0 p * exp (pk p * this_t s);
         phase1 = phase s + twoPi * (f / sr s)
     in (sin phase1, s\<lparr>phase := phase1\<rparr>))"

text \<open>\<^verbatim>\<open>for (let k = 1; k <= N; k++) { ... s += ak * Math.sin(twoPi * (k * fund) * t) }\<close>\<close>

definition additive_term :: "real \<Rightarrow> real \<Rightarrow> real \<Rightarrow> nat \<Rightarrow> real" where
  "additive_term fund' move' t k =
    (let ak = (1 / real k) * sin (twoPi * move' * t + real k)
     in ak * sin (twoPi * (real k * fund') * t))"

definition case_additive :: "FormulaGeneratorProcessor \<Rightarrow> real \<times> FormulaGeneratorProcessor" where
  "case_additive s =
    (let p = this_p s;
         fund' = fund p;
         N = nat (max 1 \<lfloor>pN p\<rfloor>);
         move' = move p;
         acc = foldl (\<lambda>a k. a + additive_term fund' move' (this_t s) k) 0 [1..<Suc N]
     in (acc * (1.0 / log 2 (real N + 1)), s))"

definition case_pm :: "FormulaGeneratorProcessor \<Rightarrow> real \<times> FormulaGeneratorProcessor" where
  "case_pm s =
    (let p = this_p s; t = this_t s;
         phi = sin (sin (twoPi * f2pm p * t))
     in (sin (twoPi * pf p * t + phi * 5.0), s))"

definition case_beats :: "FormulaGeneratorProcessor \<Rightarrow> real \<times> FormulaGeneratorProcessor" where
  "case_beats s =
    (let p = this_p s; t = this_t s
     in (0.5 * (sin (twoPi * fbeat p * t) + sin (twoPi * (fbeat p + df p) * t)), s))"

definition case_dist :: "FormulaGeneratorProcessor \<Rightarrow> real \<times> FormulaGeneratorProcessor" where
  "case_dist s =
    (let p = this_p s; t = this_t s
     in (tanh (alpha p * sin (twoPi * fd p * t)), s))"

definition case_quasi :: "FormulaGeneratorProcessor \<Rightarrow> real \<times> FormulaGeneratorProcessor" where
  "case_quasi s =
    (let p = this_p s;
         md = sin (sin (sin (wq p * this_t s)));
         f = max 0 (fq p + Aq p * md);
         phase1 = phase s + twoPi * (f / sr s)
     in (sin phase1, s\<lparr>phase := phase1\<rparr>))"

definition case_lorenz :: "FormulaGeneratorProcessor \<Rightarrow> real \<times> FormulaGeneratorProcessor" where
  "case_lorenz s =
    (let p = this_p s;
         dt = 1 / sr s;
         dx = sigma p * (ly s - lx s);
         dy = lx s * (rho p - lz s) - ly s;
         dz = lx s * ly s - beta p * lz s;
         lx1 = lx s + dx * dt;
         ly1 = ly s + dy * dt;
         lz1 = lz s + dz * dt;
         freq = max 0 (lBase p + lFreqScale p * \<bar>lx1\<bar>);
         amp = clamp (lAmp p * (0.3 + 0.7 * (0.5 + 0.5 * tanh ly1))) 0 1;
         phase1 = phase s + twoPi * (freq / sr s)
     in (amp * sin phase1, s\<lparr>lx := lx1, ly := ly1, lz := lz1, phase := phase1\<rparr>))"

text \<open>
  \<^verbatim>\<open>const buf = this.ksBuf!\<close>: after \<^verbatim>\<open>initKS\<close> the buffer is never null (lemma
  \<open>initKS_buffer\<close> below).  A write into a typed array outside its range is ignored, as
  list update is.
\<close>

definition case_karplus :: "FormulaGeneratorProcessor \<Rightarrow> real \<times> FormulaGeneratorProcessor" where
  "case_karplus s =
    (let s1 = initKS False s;
         p = this_p s1;
         buf = the (ksBuf s1);
         N = ksN s1;
         idx = ksIdx s1;
         y0 = buf ! idx;
         y1 = buf ! ((idx + 1) mod N);
         damp = clamp (ksDamp p) 0.8 0.99999;
         bright = clamp (ksBright p) 0 1;
         avg = 0.5 * (y0 + y1);
         next = damp * (bright * y0 + (1 - bright) * avg)
     in (y0, s1\<lparr>ksBuf := Some (buf[idx := next]), ksIdx := (idx + 1) mod N\<rparr>))"

definition case_noiselp :: "FormulaGeneratorProcessor \<Rightarrow> real \<times> FormulaGeneratorProcessor" where
  "case_noiselp s =
    (let p = this_p s;
         (u, g) = Math_random (randoms s);
         white = u * 2 - 1;
         cut = clamp (nCut p) 20 18000;
         a = 1 - exp ((- 2 * pi * cut) / sr s);
         nlp1 = nlp s + a * (white - nlp s)
     in (nlp1, s\<lparr>nlp := nlp1, randoms := g\<rparr>))"

definition case_pinknoise :: "FormulaGeneratorProcessor \<Rightarrow> real \<times> FormulaGeneratorProcessor" where
  "case_pinknoise s =
    (let p = this_p s;
         (u, g) = Math_random (randoms s);
         white = u * 2 - 1;
         b0 = 0.99886 * pinkB0 s + white * 0.0555179;
         b1 = 0.99332 * pinkB1 s + white * 0.0750759;
         b2 = 0.969 * pinkB2 s + white * 0.153852;
         b3 = 0.8665 * pinkB3 s + white * 0.3104856;
         b4 = 0.55 * pinkB4 s + white * 0.5329522;
         b5 = - 0.7616 * pinkB5 s - white * 0.016898;
         pink = b0 + b1 + b2 + b3 + b4 + b5 + pinkB6 s + white * 0.5362;
         b6 = white * 0.115926;
         bright = clamp (pinkBright p) 0 1
     in (pink * 0.11 * (1 - bright) + white * bright * 0.5,
         s\<lparr>pinkB0 := b0, pinkB1 := b1, pinkB2 := b2, pinkB3 := b3, pinkB4 := b4,
           pinkB5 := b5, pinkB6 := b6, randoms := g\<rparr>))"

definition case_brownnoise :: "FormulaGeneratorProcessor \<Rightarrow> real \<times> FormulaGeneratorProcessor" where
  "case_brownnoise s =
    (let p = this_p s;
         (u, g) = Math_random (randoms s);
         white = u * 2 - 1;
         step = clamp (brownStep p) 0.001 0.1;
         b = clamp (brownVal s + white * step) (- 1) 1
     in (b, s\<lparr>brownVal := b, randoms := g\<rparr>))"

definition case_velvetnoise :: "FormulaGeneratorProcessor \<Rightarrow> real \<times> FormulaGeneratorProcessor" where
  "case_velvetnoise s =
    (let p = this_p s;
         density = max 100 (velvetDensity p);
         avgSamples = sr s / density
     in if velvetCounter s \<ge> velvetNext s
        then (let (u1, g1) = Math_random (randoms s);
                  x = (if u1 > 0.5 then 1 else - 1);
                  (u2, g2) = Math_random g1
              in (x, s\<lparr>velvetNext := velvetCounter s + avgSamples * (0.5 + u2),
                       velvetCounter := velvetCounter s + 1, randoms := g2\<rparr>))
        else (0, s\<lparr>velvetCounter := velvetCounter s + 1\<rparr>))"

definition case_rossler :: "FormulaGeneratorProcessor \<Rightarrow> real \<times> FormulaGeneratorProcessor" where
  "case_rossler s =
    (let p = this_p s;
         dt = 1 / sr s;
         a = rossA p; b = rossB p; c = rossC p;
         dx = - ry s - rz s;
         dy = rx s + a * ry s;
         dz = b + rz s * (rx s - c);
         rx1 = clamp (rx s + dx * dt * 100) (- 50) 50;
         ry1 = clamp (ry s + dy * dt * 100) (- 50) 50;
         rz1 = clamp (rz s + dz * dt * 100) (- 50) 50;
         freq = max 0 (rossBase p + rossFreqScale p * rx1);
         amp = clamp (rossAmp p * (0.3 + 0.7 * (0.5 + 0.02 * ry1))) 0 1;
         phase1 = phase s + twoPi * (freq / sr s)
     in (amp * sin phase1, s\<lparr>rx := rx1, ry := ry1, rz := rz1, phase := phase1\<rparr>))"

text \<open>
  The octave loop of the Shepard tone, over \<open>k = 0, ..., octaves - 1\<close>; the accumulator is
  the pair of \<^verbatim>\<open>sum\<close> and \<^verbatim>\<open>this.shepardPhases\<close>; \<^verbatim>\<open>continue\<close> skips an octave above 18 kHz.
\<close>

fun shepard_loop ::
    "real \<Rightarrow> real \<Rightarrow> real \<Rightarrow> nat list \<Rightarrow> real \<times> real list \<Rightarrow> real \<times> real list" where
  "shepard_loop baseF shT srate [] acc = acc"
| "shepard_loop baseF shT srate (k # ks) acc =
    (let (sum', phases) = acc;
         centerLog = log 2 440;
         sigma' = 1.5;
         freqMult = 2 powr (real k + shT);
         freq = baseF * freqMult
     in if freq > 18000 then shepard_loop baseF shT srate ks acc
        else (let logF = log 2 freq;
                  envelope = exp (- 0.5 * ((logF - centerLog) / sigma')\<^sup>2);
                  ph1 = phases ! k + twoPi * (freq / srate);
                  ph2 = (if ph1 > twoPi then ph1 - twoPi else ph1)
              in shepard_loop baseF shT srate ks
                   (sum' + envelope * sin ph2, phases[k := ph2])))"

definition case_shepard :: "FormulaGeneratorProcessor \<Rightarrow> real \<times> FormulaGeneratorProcessor" where
  "case_shepard s =
    (let p = this_p s;
         baseF = max 20 (shepBase p);
         speed = shepSpeed p;
         octaves = nat (max 1 (min 10 \<lfloor>shepOctaves p\<rfloor>));
         shT0 = shepardT s + speed / sr s;
         shT = (if shT0 > 1 then shT0 - 1 else shT0);
         (sum', phases) = shepard_loop baseF shT (sr s) [0..<octaves] (0, shepardPhases s)
     in (sum' / sqrt (real octaves), s\<lparr>shepardT := shT, shepardPhases := phases\<rparr>))"

text \<open>The \<^verbatim>\<open>switch (this.formula)\<close>, with its \<^verbatim>\<open>default\<close> branch last.\<close>

definition formula_switch :: "nat \<Rightarrow> FormulaGeneratorProcessor \<Rightarrow> real \<times> FormulaGeneratorProcessor" where
  "formula_switch i s =
    (if formula s = ''fm'' then case_fm s
     else if formula s = ''logistic'' then case_logistic i s
     else if formula s = ''gliss'' then case_gliss s
     else if formula s = ''additive'' then case_additive s
     else if formula s = ''pm'' then case_pm s
     else if formula s = ''beats'' then case_beats s
     else if formula s = ''dist'' then case_dist s
     else if formula s = ''quasi'' then case_quasi s
     else if formula s = ''lorenz'' then case_lorenz s
     else if formula s = ''karplus'' then case_karplus s
     else if formula s = ''noiselp'' then case_noiselp s
     else if formula s = ''pinknoise'' then case_pinknoise s
     else if formula s = ''brownnoise'' then case_brownnoise s
     else if formula s = ''velvetnoise'' then case_velvetnoise s
     else if formula s = ''rossler'' then case_rossler s
     else if formula s = ''shepard'' then case_shepard s
     else (0, s))"

text \<open>The formula ids that have a case in the switch.\<close>

definition switch_cases :: "string list" where
  "switch_cases = [''fm'', ''logistic'', ''gliss'', ''additive'', ''pm'', ''beats'', ''dist'',
     ''quasi'', ''lorenz'', ''karplus'', ''noiselp'', ''pinknoise'', ''brownnoise'',
     ''velvetnoise'', ''rossler'', ''shepard'']"

definition gain_or_default :: "FormulaParams \<Rightarrow> real" where
  "gain_or_default p = (case gain p of Some g \<Rightarrow> g | None \<Rightarrow> 0.2)"

text \<open>
  One turn of the loop: the switch, then
  \<^verbatim>\<open>ch0[i] = x * (p.gain ?? 0.2); t += 1 / sr; if (phase > 1e9) phase %= twoPi;\<close>.
  The result is the sample written to \<^verbatim>\<open>ch0[i]\<close> and the next state.
\<close>

definition loop_body :: "nat \<Rightarrow> FormulaGeneratorProcessor \<Rightarrow> real \<times> FormulaGeneratorProcessor" where
  "loop_body i s =
    (let (x, s1) = formula_switch i s;
         y = x * gain_or_default (this_p s1);
         s2 = s1\<lparr>this_t := this_t s1 + 1 / sr s1\<rparr>;
         s3 = (if phase s2 > 1000000000 then s2\<lparr>phase := js_rem (phase s2) twoPi\<rparr> else s2)
     in (y, s3))"

text \<open>\<^verbatim>\<open>for (let i = 0; i < n; i++)\<close>: \<open>process_loop i m\<close> runs the turns \<open>i, ..., i + m - 1\<close>.\<close>

fun process_loop ::
    "nat \<Rightarrow> nat \<Rightarrow> FormulaGeneratorProcessor \<Rightarrow> real list \<times> FormulaGeneratorProcessor" where
  "process_loop i 0 s = ([], s)"
| "process_loop i (Suc m) s =
    (let (y, s1) = loop_body i s;
         (ys, s2) = process_loop (Suc i) m s1
     in (y # ys, s2))"

text \<open>
  \<^verbatim>\<open>process\<close> on an output channel of \<open>n\<close> samples: the samples written to \<^verbatim>\<open>ch0\<close>, the
  next state and the returned boolean.
\<close>

definition process ::
    "nat \<Rightarrow> FormulaGeneratorProcessor \<Rightarrow> real list \<times> FormulaGeneratorProcessor \<times> bool" where
  "process n s = (let (ch0, s') = process_loop 0 n s in (ch0, s', True))"

subsection \<open>The mixer side: \<^verbatim>\<open>AudioEngine.enableFormula\<close>\<close>

text \<open>
  \<^verbatim>\<open>const targetGain = enabled ? (gen.params.gain ?? 0.2) : 0\<close>, the value that the gain node
  between the generator and the mix bus is driven to.
\<close>

definition enableFormula_targetGain :: "FormulaParams \<Rightarrow> bool \<Rightarrow> real" where
  "enableFormula_targetGain params enabled = (if enabled then gain_or_default params else 0)"

subsection \<open>Auxiliary notions for the statements\<close>

text \<open>The state \<open>s\<close> with the \<^verbatim>\<open>gain\<close> property of its parameter object replaced.\<close>

definition with_gain :: "real option \<Rightarrow> FormulaGeneratorProcessor \<Rightarrow> FormulaGeneratorProcessor" where
  "with_gain a s = s\<lparr>this_p := (this_p s)\<lparr>gain := a\<rparr>\<rparr>"

text \<open>
  Concrete processors for the closed statements: constructed at 44.1 kHz with the default
  parameters, on a sequence of random draws that are all zero.
\<close>

definition no_noise :: rng where
  "no_noise n = 0"

definition am_probe :: FormulaGeneratorProcessor where
  "am_probe = new_FormulaGeneratorProcessor (Some ''am'') [] 44100 no_noise"

definition velvet_probe :: FormulaGeneratorProcessor where
  "velvet_probe = new_FormulaGeneratorProcessor (Some ''velvetnoise'') [] 44100 no_noise"

definition logistic_probe :: FormulaGeneratorProcessor where
  "logistic_probe = new_FormulaGeneratorProcessor (Some ''logistic'') [] 44100 no_noise"





text \<open>
  The additive generator with one harmonic (\<^verbatim>\<open>N = 1\<close>) after its first sample, so that the
  engine time is \<open>1 / 44100\<close>.
\<close>

definition additive_probe :: FormulaGeneratorProcessor where
  "additive_probe =
     snd (loop_body 0 (new_FormulaGeneratorProcessor (Some ''additive'') [(''N'', 1)] 44100 no_noise))"

section \<open>The effects\<close>

text \<open>
  Sources: \<^verbatim>\<open>effects/Reverb.ts\<close>, \<^verbatim>\<open>effects/Phaser.ts\<close>, \<^verbatim>\<open>effects/EffectsChain.ts\<close> and the
  type \<^verbatim>\<open>EffectsState\<close>.  An \<^verbatim>\<open>AudioParam\<close> is its current value, and
  \<^verbatim>\<open>param.setValueAtTime(v, ctx.currentTime)\<close> sets it.  The gain nodes \<^verbatim>\<open>dryGain\<close> and
  \<^verbatim>\<open>wetGain\<close> exist in several classes; their fields carry the class name here.
\<close>

datatype BiquadFilterType = lowpass | highpass | bandpass | allpass

datatype ChorusMode = chorus | flanger

record EffectsState =
  filterOn :: bool
  filterType :: BiquadFilterType
  filterFreq :: real
  filterQ :: real
  chorusOn :: bool
  chorusMode :: ChorusMode
  chorusRate :: real
  chorusDepth :: real
  chorusMix :: real
  chorusFb :: real
  reverbOn :: bool
  reverbDecay :: real
  reverbMix :: real
  limiterOn :: bool
  limiterThr :: real
  limiterRel :: real
  delayOn :: bool
  delayTime :: real
  delayFb :: real
  delayMix :: real
  phaserOn :: bool
  phaserRate :: real
  phaserDepth :: real
  phaserStages :: real
  phaserFb :: real
  phaserMix :: real

text \<open>The default effects state of \<^verbatim>\<open>config\<close>: every effect off.\<close>

definition DEFAULT_FX :: EffectsState where
  "DEFAULT_FX = \<lparr>
     filterOn = False, filterType = lowpass, filterFreq = 1000, filterQ = 0.7,
     chorusOn = False, chorusMode = chorus, chorusRate = 0.35, chorusDepth = 6,
     chorusMix = 0.35, chorusFb = 0.15,
     reverbOn = False, reverbDecay = 2.8, reverbMix = 0.25,
     limiterOn = False, limiterThr = - 12, limiterRel = 0.15,
     delayOn = False, delayTime = 0.35, delayFb = 0.4, delayMix = 0.3,
     phaserOn = False, phaserRate = 0.5, phaserDepth = 0.7, phaserStages = 4,
     phaserFb = 0.3, phaserMix = 0.5 \<rparr>"

subsection \<open>Reverb\<close>

text \<open>
  The convolver's \<^verbatim>\<open>buffer\<close> is \<^verbatim>\<open>null\<close> until the first \<^verbatim>\<open>setDecay\<close>; an \<^verbatim>\<open>AudioBuffer\<close> is
  the list of its channels.
\<close>

record Reverb =
  convolver_buffer :: "real list list option"
  reverb_dryGain :: real
  reverb_wetGain :: real

definition new_Reverb :: Reverb where
  "new_Reverb = \<lparr> convolver_buffer = None, reverb_dryGain = 1, reverb_wetGain = 1 \<rparr>"

text \<open>\<^verbatim>\<open>const len = Math.max(1, Math.floor(sr * seconds))\<close>\<close>

definition irLength :: "real \<Rightarrow> real \<Rightarrow> nat" where
  "irLength sRate seconds = nat (max 1 \<lfloor>sRate * seconds\<rfloor>)"

text \<open>
  The inner loop of \<^verbatim>\<open>makeImpulseResponse\<close> over the sample indices of one channel:
  \<^verbatim>\<open>t = i / sr; env = Math.exp(-t / Math.max(1e-3, decay)); data[i] = (Math.random() * 2 - 1) * env\<close>.
\<close>

fun fill_channel :: "real \<Rightarrow> real \<Rightarrow> nat list \<Rightarrow> rng \<Rightarrow> real list \<times> rng" where
  "fill_channel sRate decay [] g = ([], g)"
| "fill_channel sRate decay (i # is) g =
    (let t = real i / sRate;
         env = exp (- t / max 0.001 decay);
         (u, g1) = Math_random g;
         (rest, g2) = fill_channel sRate decay is g1
     in ((u * 2 - 1) * env # rest, g2))"

text \<open>\<^verbatim>\<open>for (let ch = 0; ch < 2; ch++)\<close>: channel 0, then channel 1.\<close>

definition makeImpulseResponse :: "real \<Rightarrow> real \<Rightarrow> real \<Rightarrow> rng \<Rightarrow> real list list \<times> rng" where
  "makeImpulseResponse sRate seconds decay g =
    (let len = irLength sRate seconds;
         (data0, g1) = fill_channel sRate decay [0..<len] g;
         (data1, g2) = fill_channel sRate decay [0..<len] g1
     in ([data0, data1], g2))"

definition Reverb_setDecay :: "real \<Rightarrow> real \<Rightarrow> Reverb \<times> rng \<Rightarrow> Reverb \<times> rng" where
  "Reverb_setDecay sRate decay rg =
    (let (rv, g) = rg;
         seconds = min 6.0 (max 0.3 (decay * 1.4));
         (buf, g1) = makeImpulseResponse sRate seconds decay g
     in (rv\<lparr>convolver_buffer := Some buf\<rparr>, g1))"

definition Reverb_setMix :: "real \<Rightarrow> Reverb \<Rightarrow> Reverb" where
  "Reverb_setMix mix rv = rv\<lparr>reverb_dryGain := 1 - mix, reverb_wetGain := mix\<rparr>"

definition Reverb_update :: "real \<Rightarrow> real \<Rightarrow> real \<Rightarrow> Reverb \<times> rng \<Rightarrow> Reverb \<times> rng" where
  "Reverb_update sRate decay mix rg =
    (let (rv, g) = Reverb_setDecay sRate decay rg
     in (Reverb_setMix mix rv, g))"

subsection \<open>Phaser\<close>

record Biquad =
  biquad_type :: BiquadFilterType
  biquad_frequency :: real
  biquad_Q :: real

record Phaser =
  filters :: "Biquad list"
  lfo_frequency :: real
  lfoGains :: "real list"
  phaser_dryGain :: real
  phaser_wetGain :: real
  phaser_feedbackGain :: real

definition MAX_STAGES :: nat where
  "MAX_STAGES = 8"

text \<open>
  The constructor pushes \<^verbatim>\<open>MAX_STAGES\<close> all-pass filters (1000 Hz, Q 0.5) and as many LFO
  gains (1500).  An oscillator starts at 440 Hz and a gain node at gain 1.
\<close>

definition new_Phaser :: Phaser where
  "new_Phaser =
    \<lparr> filters = replicate MAX_STAGES
        \<lparr> biquad_type = allpass, biquad_frequency = 1000, biquad_Q = 0.5 \<rparr>,
      lfo_frequency = 440,
      lfoGains = replicate MAX_STAGES 1500,
      phaser_dryGain = 1, phaser_wetGain = 1, phaser_feedbackGain = 1 \<rparr>"

definition Phaser_setRate :: "real \<Rightarrow> Phaser \<Rightarrow> Phaser" where
  "Phaser_setRate rate ph = ph\<lparr>lfo_frequency := rate\<rparr>"

text \<open>
  \<^verbatim>\<open>for (let i = 0; i < this.filters.length; i++) { this.filters[i].frequency := 1000;
  this.lfoGains[i].gain := freqRange }\<close>
\<close>

fun setDepth_loop :: "real \<Rightarrow> nat list \<Rightarrow> Biquad list \<times> real list \<Rightarrow> Biquad list \<times> real list" where
  "setDepth_loop freqRange [] acc = acc"
| "setDepth_loop freqRange (i # is) acc =
    (let (fs, gs) = acc
     in setDepth_loop freqRange is
          (fs[i := (fs ! i)\<lparr>biquad_frequency := 1000\<rparr>], gs[i := freqRange]))"

definition Phaser_setDepth :: "real \<Rightarrow> Phaser \<Rightarrow> Phaser" where
  "Phaser_setDepth depth' ph =
    (let freqRange = 3000 * depth';
         (fs, gs) = setDepth_loop freqRange [0..<length (filters ph)] (filters ph, lfoGains ph)
     in ph\<lparr>filters := fs, lfoGains := gs\<rparr>)"

definition Phaser_setFeedback :: "real \<Rightarrow> Phaser \<Rightarrow> Phaser" where
  "Phaser_setFeedback fb ph = ph\<lparr>phaser_feedbackGain := fb\<rparr>"

definition Phaser_setMix :: "real \<Rightarrow> Phaser \<Rightarrow> Phaser" where
  "Phaser_setMix mix ph = ph\<lparr>phaser_dryGain := 1 - mix, phaser_wetGain := mix\<rparr>"

text \<open>\<^verbatim>\<open>update(rate, depth, _stages, feedback, mix)\<close>: the third parameter is not used.\<close>

definition Phaser_update :: "real \<Rightarrow> real \<Rightarrow> real \<Rightarrow> real \<Rightarrow> real \<Rightarrow> Phaser \<Rightarrow> Phaser" where
  "Phaser_update rate depth' stages feedback mix ph =
    Phaser_setMix mix (Phaser_setFeedback feedback (Phaser_setDepth depth' (Phaser_setRate rate ph)))"

subsection \<open>The other stages\<close>

record Filter =
  filter_node :: Biquad

record Chorus =
  chorus_delayTime :: real
  chorus_lfo_frequency :: real
  chorus_lfoGain :: real
  chorus_dryGain :: real
  chorus_wetGain :: real
  chorus_feedbackGain :: real

record Limiter =
  limiter_threshold :: real
  limiter_release :: real

record Delay =
  delay_delayTime :: real
  delay_feedbackGain :: real
  delay_dryGain :: real
  delay_wetGain :: real

definition Filter_update :: "BiquadFilterType \<Rightarrow> real \<Rightarrow> real \<Rightarrow> Filter \<Rightarrow> Filter" where
  "Filter_update type freq q fl =
    fl\<lparr>filter_node := \<lparr> biquad_type = type, biquad_frequency = freq, biquad_Q = q \<rparr>\<rparr>"

definition Chorus_update :: "ChorusMode \<Rightarrow> real \<Rightarrow> real \<Rightarrow> real \<Rightarrow> real \<Rightarrow> Chorus \<Rightarrow> Chorus" where
  "Chorus_update mode rate depthMs mix feedback ch =
    (let baseMs = (if mode = flanger then 2.0 else 12.0)
     in ch\<lparr>chorus_delayTime := baseMs / 1000, chorus_lfo_frequency := rate,
           chorus_lfoGain := depthMs / 1000, chorus_dryGain := 1 - mix, chorus_wetGain := mix,
           chorus_feedbackGain := feedback\<rparr>)"

definition Limiter_update :: "real \<Rightarrow> real \<Rightarrow> Limiter \<Rightarrow> Limiter" where
  "Limiter_update threshold release lm =
    lm\<lparr>limiter_threshold := threshold, limiter_release := release\<rparr>"

definition Delay_update :: "real \<Rightarrow> real \<Rightarrow> real \<Rightarrow> Delay \<Rightarrow> Delay" where
  "Delay_update time feedback mix dl =
    dl\<lparr>delay_delayTime := time, delay_feedbackGain := feedback,
       delay_dryGain := 1 - mix, delay_wetGain := mix\<rparr>"

subsection \<open>\<^verbatim>\<open>EffectsChain.updateParams\<close>\<close>

text \<open>
  The parameter side of the chain: the six stages, the sample rate of the audio context
  and the random draws to come.  The fields \<^verbatim>\<open>filter\<close>, ..., \<^verbatim>\<open>phaser\<close> carry the suffix
  \<open>_fx\<close>.
\<close>

record EffectsChain =
  filter_fx :: Filter
  chorus_fx :: Chorus
  reverb_fx :: Reverb
  limiter_fx :: Limiter
  delay_fx :: Delay
  phaser_fx :: Phaser
  ctx_sampleRate :: real
  ctx_randoms :: rng

definition updateParams :: "EffectsState \<Rightarrow> EffectsChain \<Rightarrow> EffectsChain" where
  "updateParams state ec =
    (let fl = Filter_update (filterType state) (filterFreq state) (filterQ state) (filter_fx ec);
         ch = Chorus_update (chorusMode state) (chorusRate state) (chorusDepth state)
                (chorusMix state) (chorusFb state) (chorus_fx ec);
         (rv, g) = Reverb_update (ctx_sampleRate ec) (reverbDecay state) (reverbMix state)
                (reverb_fx ec, ctx_randoms ec);
         lm = Limiter_update (limiterThr state) (limiterRel state) (limiter_fx ec);
         dl = Delay_update (delayTime state) (delayFb state) (delayMix state) (delay_fx ec);
         ph = Phaser_update (phaserRate state) (phaserDepth state) (phaserStages state)
                (phaserFb state) (phaserMix state) (phaser_fx ec)
     in ec\<lparr>filter_fx := fl, chorus_fx := ch, reverb_fx := rv, limiter_fx := lm,
           delay_fx := dl, phaser_fx := ph, ctx_randoms := g\<rparr>)"

subsection \<open>\<^verbatim>\<open>EffectsChain.rebuild\<close>: the routing\<close>

text \<open>
  The audio nodes that the chain and its stages own, and the gain nodes that \<^verbatim>\<open>rebuild\<close>
  creates for the sum of a stage's dry and wet paths (\<^verbatim>\<open>chorusSum\<close>, \<^verbatim>\<open>phaserSum\<close>,
  \<^verbatim>\<open>delaySum\<close>, \<^verbatim>\<open>reverbSum\<close>): each \<^verbatim>\<open>ctx.createGain()\<close> returns a node that did not exist
  before, identified here by a running number.  The filter and the limiter are one node
  each, both input and output of their stage.
\<close>

datatype node =
    InputNode | OutputNode
  | FilterNode
  | ChorusDelay | ChorusDry | ChorusWet | ChorusFeedback | ChorusSum nat
  | ReverbConvolver | ReverbDry | ReverbWet | ReverbSum nat
  | LimiterNode
  | DelayDelay | DelayDry | DelayWet | DelayFeedback | DelaySum nat
  | PhaserDry | PhaserWet | PhaserFeedback | PhaserInput | PhaserOutput | PhaserFilter nat
  | PhaserSum nat

text \<open>
  The connections between audio nodes, and the number of the next node to be created.
  \<^verbatim>\<open>a.connect(b)\<close> adds the connection from \<open>a\<close> to \<open>b\<close> (connecting twice is the same as
  once), \<^verbatim>\<open>a.disconnect()\<close> removes every connection that leaves \<open>a\<close>.
\<close>

record graph =
  edges :: "(node \<times> node) list"
  nextId :: nat

definition new_graph :: graph where
  "new_graph = \<lparr> edges = [], nextId = 0 \<rparr>"

definition connect :: "node \<Rightarrow> node \<Rightarrow> graph \<Rightarrow> graph" where
  "connect a b g = g\<lparr>edges := List.insert (a, b) (edges g)\<rparr>"

definition disconnect :: "node \<Rightarrow> graph \<Rightarrow> graph" where
  "disconnect a g = g\<lparr>edges := filter (\<lambda>e. fst e \<noteq> a) (edges g)\<rparr>"

definition createGain :: "(nat \<Rightarrow> node) \<Rightarrow> graph \<Rightarrow> node \<times> graph" where
  "createGain mk g = (mk (nextId g), g\<lparr>nextId := Suc (nextId g)\<rparr>)"

text \<open>\<^verbatim>\<open>phaser.allFilters\<close>: the \<^verbatim>\<open>MAX_STAGES\<close> filters that the Phaser constructor made.\<close>

definition allFilters :: "node list" where
  "allFilters = map PhaserFilter [0..<MAX_STAGES]"

text \<open>
  \<^verbatim>\<open>disconnectAll\<close>, in the order of the source: the input node, the stages' own
  \<^verbatim>\<open>disconnect\<close> methods (filter, chorus, reverb, limiter, delay, phaser), the output node.
\<close>

definition disconnectAll :: "graph \<Rightarrow> graph" where
  "disconnectAll g =
    fold disconnect
      ([InputNode, FilterNode,
        ChorusDelay, ChorusDry, ChorusWet, ChorusFeedback,
        ReverbConvolver, ReverbDry, ReverbWet,
        LimiterNode,
        DelayDelay, DelayDry, DelayWet, DelayFeedback,
        PhaserDry, PhaserWet, PhaserFeedback, PhaserInput, PhaserOutput]
       @ allFilters @ [OutputNode]) g"

text \<open>
  The blocks of \<^verbatim>\<open>rebuild\<close>, one for each stage.  Each takes the flag of the stage, the
  current \<^verbatim>\<open>node\<close> and the graph, and returns the next \<^verbatim>\<open>node\<close> and the graph.
\<close>

definition route_filter :: "bool \<Rightarrow> node \<times> graph \<Rightarrow> node \<times> graph" where
  "route_filter on ng =
    (let (node, g) = ng
     in if on then (FilterNode, connect node FilterNode g) else (node, g))"

definition route_chorus :: "bool \<Rightarrow> node \<times> graph \<Rightarrow> node \<times> graph" where
  "route_chorus on ng =
    (let (node, g) = ng
     in if on then
          (let g1 = connect node ChorusDry g;
               g2 = connect node ChorusDelay g1;
               g3 = connect ChorusDelay ChorusFeedback g2;
               g4 = connect ChorusFeedback ChorusDelay g3;
               g5 = connect ChorusDelay ChorusWet g4;
               (chorusSum, g6) = createGain ChorusSum g5;
               g7 = connect ChorusDry chorusSum g6;
               g8 = connect ChorusWet chorusSum g7
           in (chorusSum, g8))
        else (node, g))"

text \<open>\<^verbatim>\<open>for (const f of this.phaser.allFilters) { pNode.connect(f); pNode = f; }\<close>\<close>

fun wire_filters :: "node list \<Rightarrow> node \<times> graph \<Rightarrow> node \<times> graph" where
  "wire_filters [] pg = pg"
| "wire_filters (f # fs) pg = (let (pNode, g) = pg in wire_filters fs (f, connect pNode f g))"

definition route_phaser :: "bool \<Rightarrow> node \<times> graph \<Rightarrow> node \<times> graph" where
  "route_phaser on ng =
    (let (node, g) = ng
     in if on then
          (let g1 = connect node PhaserDry g;
               g2 = connect node PhaserInput g1;
               (pNode, g3) = wire_filters allFilters (PhaserInput, g2);
               g4 = connect pNode PhaserOutput g3;
               g5 = connect PhaserOutput PhaserFeedback g4;
               g6 = connect PhaserFeedback PhaserInput g5;
               g7 = connect PhaserOutput PhaserWet g6;
               (phaserSum, g8) = createGain PhaserSum g7;
               g9 = connect PhaserDry phaserSum g8;
               g10 = connect PhaserWet phaserSum g9
           in (phaserSum, g10))
        else (node, g))"

definition route_delay :: "bool \<Rightarrow> node \<times> graph \<Rightarrow> node \<times> graph" where
  "route_delay on ng =
    (let (node, g) = ng
     in if on then
          (let g1 = connect node DelayDry g;
               g2 = connect node DelayDelay g1;
               g3 = connect DelayDelay DelayFeedback g2;
               g4 = connect DelayFeedback DelayDelay g3;
               g5 = connect DelayDelay DelayWet g4;
               (delaySum, g6) = createGain DelaySum g5;
               g7 = connect DelayDry delaySum g6;
               g8 = connect DelayWet delaySum g7
           in (delaySum, g8))
        else (node, g))"

definition route_reverb :: "bool \<Rightarrow> node \<times> graph \<Rightarrow> node \<times> graph" where
  "route_reverb on ng =
    (let (node, g) = ng
     in if on then
          (let g1 = connect node ReverbDry g;
               g2 = connect node ReverbConvolver g1;
               g3 = connect ReverbConvolver ReverbWet g2;
               (reverbSum, g4) = createGain ReverbSum g3;
               g5 = connect ReverbDry reverbSum g4;
               g6 = connect ReverbWet reverbSum g5
           in (reverbSum, g6))
        else (node, g))"

definition route_limiter :: "bool \<Rightarrow> node \<times> graph \<Rightarrow> node \<times> graph" where
  "route_limiter on ng =
    (let (node, g) = ng
     in if on then (LimiterNode, connect node LimiterNode g) else (node, g))"

definition rebuild :: "EffectsState \<Rightarrow> graph \<Rightarrow> graph" where
  "rebuild state g =
    (let g0 = disconnectAll g;
         ng1 = route_filter (filterOn state) (InputNode, g0);
         ng2 = route_chorus (chorusOn state) ng1;
         ng3 = route_phaser (phaserOn state) ng2;
         ng4 = route_delay (delayOn state) ng3;
         ng5 = route_reverb (reverbOn state) ng4;
         (node, g6) = route_limiter (limiterOn state) ng5
     in connect node OutputNode g6)"

subsection \<open>The routing seen stage by stage\<close>

text \<open>
  The six stage slots in their canonical order, the source (the chain input) and the sink
  (the chain output).  Every node belongs to one of them.
\<close>

datatype stage = FilterStage | ChorusStage | PhaserStage | DelayStage | ReverbStage | LimiterStage

datatype slot = Source | Stage stage | Sink

definition canonical_order :: "stage list" where
  "canonical_order = [FilterStage, ChorusStage, PhaserStage, DelayStage, ReverbStage, LimiterStage]"

fun enabled :: "EffectsState \<Rightarrow> stage \<Rightarrow> bool" where
  "enabled state FilterStage = filterOn state"
| "enabled state ChorusStage = chorusOn state"
| "enabled state PhaserStage = phaserOn state"
| "enabled state DelayStage = delayOn state"
| "enabled state ReverbStage = reverbOn state"
| "enabled state LimiterStage = limiterOn state"

fun owner :: "node \<Rightarrow> slot" where
  "owner InputNode = Source"
| "owner OutputNode = Sink"
| "owner FilterNode = Stage FilterStage"
| "owner ChorusDelay = Stage ChorusStage"
| "owner ChorusDry = Stage ChorusStage"
| "owner ChorusWet = Stage ChorusStage"
| "owner ChorusFeedback = Stage ChorusStage"
| "owner (ChorusSum k) = Stage ChorusStage"
| "owner ReverbConvolver = Stage ReverbStage"
| "owner ReverbDry = Stage ReverbStage"
| "owner ReverbWet = Stage ReverbStage"
| "owner (ReverbSum k) = Stage ReverbStage"
| "owner LimiterNode = Stage LimiterStage"
| "owner DelayDelay = Stage DelayStage"
| "owner DelayDry = Stage DelayStage"
| "owner DelayWet = Stage DelayStage"
| "owner DelayFeedback = Stage DelayStage"
| "owner (DelaySum k) = Stage DelayStage"
| "owner PhaserDry = Stage PhaserStage"
| "owner PhaserWet = Stage PhaserStage"
| "owner PhaserFeedback = Stage PhaserStage"
| "owner PhaserInput = Stage PhaserStage"
| "owner PhaserOutput = Stage PhaserStage"
| "owner (PhaserFilter k) = Stage PhaserStage"
| "owner (PhaserSum k) = Stage PhaserStage"

text \<open>The nodes that the signal of the chain input reaches along the connections.\<close>

definition carries :: "graph \<Rightarrow> node set" where
  "carries g = {b. (InputNode, b) \<in> (set (edges g))\<^sup>*}"

text \<open>
  The links between slots: a connection that carries signal and leaves its slot.
  Connections inside a stage (dry and wet paths, feedback loops) are not links.
\<close>

definition stage_links :: "graph \<Rightarrow> (slot \<times> slot) set" where
  "stage_links g =
    {(owner a, owner b) | a b. (a, b) \<in> set (edges g) \<and> a \<in> carries g \<and> owner a \<noteq> owner b}"

text \<open>The series path of a state: source, the enabled stages in canonical order, sink.\<close>

definition series_path :: "EffectsState \<Rightarrow> slot list" where
  "series_path state = Source # map Stage (filter (enabled state) canonical_order) @ [Sink]"

text \<open>The links of a path: each element to its successor.\<close>

definition path_links :: "slot list \<Rightarrow> (slot \<times> slot) set" where
  "path_links xs = set (zip xs (tl xs))"

text \<open>The graph after a history of rebuilds, from the graph of a new chain.\<close>

definition after_rebuilds :: "EffectsState list \<Rightarrow> graph" where
  "after_rebuilds states = foldl (\<lambda>g state. rebuild state g) new_graph states"

subsection \<open>Auxiliary notions for the statements about the effects\<close>

text \<open>
  Random draws that are 0 at the first draw and 1/2 afterwards, and a Reverb that is
  updated twice with the same decay and two different mixes.
\<close>

definition spike_noise :: rng where
  "spike_noise n = (if n = 0 then 0 else 1 / 2)"

definition reverb_probe1 :: "Reverb \<times> rng" where
  "reverb_probe1 = Reverb_update 44100 2.8 0.25 (new_Reverb, spike_noise)"

definition reverb_probe2 :: "Reverb \<times> rng" where
  "reverb_probe2 = Reverb_update 44100 2.8 0.5 reverb_probe1"

text \<open>The Phaser after a history of \<^verbatim>\<open>update\<close> calls, from the constructor.\<close>

definition phaser_after :: "(real \<times> real \<times> real \<times> real \<times> real) list \<Rightarrow> Phaser" where
  "phaser_after us =
     foldl (\<lambda>ph (rate, depth', stages, feedback, mix). Phaser_update rate depth' stages feedback mix ph)
       new_Phaser us"

subsection \<open>Auxiliary notions for the proof about the routing\<close>

text \<open>
  A sum node that was created before the node number \<open>n\<close>; the nodes that \<^verbatim>\<open>disconnectAll\<close>
  disconnects; a graph whose connections leave such nodes only.
\<close>

fun sum_below :: "nat \<Rightarrow> node \<Rightarrow> bool" where
  "sum_below n (ChorusSum k) = (k < n)"
| "sum_below n (PhaserSum k) = (k < n)"
| "sum_below n (DelaySum k) = (k < n)"
| "sum_below n (ReverbSum k) = (k < n)"
| "sum_below n a = False"

definition owned_nodes :: "node list" where
  "owned_nodes =
     [InputNode, FilterNode,
      ChorusDelay, ChorusDry, ChorusWet, ChorusFeedback,
      ReverbConvolver, ReverbDry, ReverbWet,
      LimiterNode,
      DelayDelay, DelayDry, DelayWet, DelayFeedback,
      PhaserDry, PhaserWet, PhaserFeedback, PhaserInput, PhaserOutput]
     @ allFilters @ [OutputNode]"

definition tidy :: "graph \<Rightarrow> bool" where
  "tidy g = (\<forall>e \<in> set (edges g). fst e \<in> set owned_nodes \<or> sum_below (nextId g) (fst e))"

text \<open>Reachability and links on a set of connections.\<close>

definition reach :: "(node \<times> node) set \<Rightarrow> node set" where
  "reach E = {b. (InputNode, b) \<in> E\<^sup>*}"

definition links :: "(node \<times> node) set \<Rightarrow> (slot \<times> slot) set" where
  "links E = {(owner a, owner b) | a b. (a, b) \<in> E \<and> a \<in> reach E \<and> owner a \<noteq> owner b}"

text \<open>
  The invariant of \<^verbatim>\<open>rebuild\<close> between two of its blocks: the current node carries signal
  and belongs to the last slot of the path built so far, the links are those of the path,
  no node that carries signal lies outside the path or is an old sum node, and a
  connection that leaves a node outside the path leaves an old sum node.
\<close>

definition routed :: "nat \<Rightarrow> (node \<times> node) set \<Rightarrow> node \<Rightarrow> slot list \<Rightarrow> bool" where
  "routed n E cur path =
    (path \<noteq> [] \<and> cur \<in> reach E \<and> owner cur = last path \<and>
     links E = path_links path \<and>
     (\<forall>x \<in> reach E. owner x \<in> set path \<and> \<not> sum_below n x) \<and>
     (\<forall>e \<in> E. owner (fst e) \<notin> set path \<longrightarrow> sum_below n (fst e)))"

definition wired :: "nat \<Rightarrow> node \<times> graph \<Rightarrow> slot list \<Rightarrow> bool" where
  "wired n ng path =
    (routed n (set (edges (snd ng))) (fst ng) path \<and> n \<le> nextId (snd ng) \<and> tidy (snd ng) \<and>
     (fst ng \<in> set owned_nodes \<or> sum_below (nextId (snd ng)) (fst ng)))"

text \<open>The connections of the filter chain of the Phaser.\<close>

fun chain_edges :: "node \<Rightarrow> node list \<Rightarrow> (node \<times> node) set" where
  "chain_edges p [] = {}"
| "chain_edges p (f # fs) = insert (p, f) (chain_edges f fs)"

section \<open>Properties of the formula generator\<close>

subsection \<open>What a turn of the loop leaves unchanged\<close>

lemma initKS_buffer: "ksBuf (initKS force s) \<noteq> None"
  by (simp add: initKS_def Let_def split_def)

lemma initKS_frame:
  "formula (initKS force s) = formula s" "sr (initKS force s) = sr s"
  "this_p (initKS force s) = this_p s"
  by (simp_all add: initKS_def Let_def split_def)

lemma case_frame:
  "formula (snd (case_fm s)) = formula s \<and> sr (snd (case_fm s)) = sr s \<and>
   this_p (snd (case_fm s)) = this_p s"
  "formula (snd (case_logistic i s)) = formula s \<and> sr (snd (case_logistic i s)) = sr s \<and>
   this_p (snd (case_logistic i s)) = this_p s"
  "formula (snd (case_gliss s)) = formula s \<and> sr (snd (case_gliss s)) = sr s \<and>
   this_p (snd (case_gliss s)) = this_p s"
  "formula (snd (case_additive s)) = formula s \<and> sr (snd (case_additive s)) = sr s \<and>
   this_p (snd (case_additive s)) = this_p s"
  "formula (snd (case_pm s)) = formula s \<and> sr (snd (case_pm s)) = sr s \<and>
   this_p (snd (case_pm s)) = this_p s"
  "formula (snd (case_beats s)) = formula s \<and> sr (snd (case_beats s)) = sr s \<and>
   this_p (snd (case_beats s)) = this_p s"
  "formula (snd (case_dist s)) = formula s \<and> sr (snd (case_dist s)) = sr s \<and>
   this_p (snd (case_dist s)) = this_p s"
  "formula (snd (case_quasi s)) = formula s \<and> sr (snd (case_quasi s)) = sr s \<and>
   this_p (snd (case_quasi s)) = this_p s"
  "formula (snd (case_lorenz s)) = formula s \<and> sr (snd (case_lorenz s)) = sr s \<and>
   this_p (snd (case_lorenz s)) = this_p s"
  "formula (snd (case_karplus s)) = formula s \<and> sr (snd (case_karplus s)) = sr s \<and>
   this_p (snd (case_karplus s)) = this_p s"
  "formula (snd (case_noiselp s)) = formula s \<and> sr (snd (case_noiselp s)) = sr s \<and>
   this_p (snd (case_noiselp s)) = this_p s"
  "formula (snd (case_pinknoise s)) = formula s \<and> sr (snd (case_pinknoise s)) = sr s \<and>
   this_p (snd (case_pinknoise s)) = this_p s"
  "formula (snd (case_brownnoise s)) = formula s \<and> sr (snd (case_brownnoise s)) = sr s \<and>
   this_p (snd (case_brownnoise s)) = this_p s"
  "formula (snd (case_velvetnoise s)) = formula s \<and> sr (snd (case_velvetnoise s)) = sr s \<and>
   this_p (snd (case_velvetnoise s)) = this_p s"
  "formula (snd (case_rossler s)) = formula s \<and> sr (snd (case_rossler s)) = sr s \<and>
   this_p (snd (case_rossler s)) = this_p s"
  "formula (snd (case_shepard s)) = formula s \<and> sr (snd (case_shepard s)) = sr s \<and>
   this_p (snd (case_shepard s)) = this_p s"
  by (simp_all add: case_fm_def case_logistic_def case_gliss_def case_additive_def case_pm_def
      case_beats_def case_dist_def case_quasi_def case_lorenz_def case_karplus_def
      case_noiselp_def case_pinknoise_def case_brownnoise_def case_velvetnoise_def
      case_rossler_def case_shepard_def Let_def split_def initKS_frame)

lemma formula_switch_frame:
  "formula (snd (formula_switch i s)) = formula s"
  "sr (snd (formula_switch i s)) = sr s"
  "this_p (snd (formula_switch i s)) = this_p s"
  by (simp_all add: formula_switch_def case_frame)

lemma loop_body_frame:
  "formula (snd (loop_body i s)) = formula s"
  "sr (snd (loop_body i s)) = sr s"
  "this_p (snd (loop_body i s)) = this_p s"
  by (simp_all add: loop_body_def Let_def split_def formula_switch_frame)

lemma process_loop_frame:
  "formula (snd (process_loop i m s)) = formula s \<and>
   sr (snd (process_loop i m s)) = sr s \<and>
   this_p (snd (process_loop i m s)) = this_p s"
  by (induction m arbitrary: i s) (simp_all add: split_def Let_def loop_body_frame)

subsection \<open>A formula id without a case in the switch\<close>

lemma formula_switch_default:
  "formula s \<notin> set switch_cases \<Longrightarrow> formula_switch i s = (0, s)"
  by (simp add: formula_switch_def switch_cases_def)

lemma loop_body_default:
  "formula s \<notin> set switch_cases \<Longrightarrow> fst (loop_body i s) = 0"
  by (simp add: loop_body_def formula_switch_default Let_def)

lemma process_loop_default:
  "formula s \<notin> set switch_cases \<Longrightarrow> fst (process_loop i m s) = replicate m 0"
proof (induction m arbitrary: i s)
  case 0
  show ?case by simp
next
  case (Suc m)
  have "formula (snd (loop_body i s)) \<notin> set switch_cases"
    using Suc.prems by (simp add: loop_body_frame)
  then have "fst (process_loop (Suc i) m (snd (loop_body i s))) = replicate m 0"
    by (rule Suc.IH)
  then show ?case
    using Suc.prems by (simp add: split_def Let_def loop_body_default)
qed

lemma new_fields:
  "formula (new_FormulaGeneratorProcessor (Some (c # cs)) ps r g) = c # cs"
  "sr (new_FormulaGeneratorProcessor fo ps r g) = r"
  "this_p (new_FormulaGeneratorProcessor fo ps r g) = Object_assign default_params ps"
  "this_t (new_FormulaGeneratorProcessor fo ps r g) = 0"
  "logi (new_FormulaGeneratorProcessor fo ps r g) = 0.33"
  by (simp_all add: new_FormulaGeneratorProcessor_def initKS_def Let_def split_def)







subsection \<open>Reset and parameter messages\<close>

text \<open>
  Claim C9.  After \<^verbatim>\<open>resetState\<close>, which is what a \<^verbatim>\<open>reset\<close> message runs, the Lorenz
  coordinates are \<open>lx = 0.1, ly = 0, lz = 0\<close> and the Rossler coordinates are
  \<open>rx = 0.1, ry = 0, rz = 0\<close>, whatever the state before.  The values are the literals the
  constructor starts from, so no arithmetic is involved.
\<close>

theorem reset_attractor_coordinates:
  "lx (resetState s) = 0.1 \<and> ly (resetState s) = 0 \<and> lz (resetState s) = 0 \<and>
   rx (resetState s) = 0.1 \<and> ry (resetState s) = 0 \<and> rz (resetState s) = 0 \<and>
   onmessage MsgReset s = resetState s"
  by (simp add: resetState_def onmessage_def initKS_def Let_def split_def)

text \<open>
  Claim C10.  A \<^verbatim>\<open>set\<close> message merges its parameters into the parameter object and leaves
  every other field of the processor as it was: engine time, phase accumulator, logistic
  value, Lorenz and Rossler coordinates, noise filter accumulators, velvet counters,
  Shepard phases and position, the Karplus-Strong buffer with its index and length, and
  also the formula id, the sample rate and the random draws to come.
\<close>

theorem set_message_frame:
  "this_p (onmessage (MsgSet ps) s) = Object_assign (this_p s) ps \<and>
   this_t (onmessage (MsgSet ps) s) = this_t s \<and>
   phase (onmessage (MsgSet ps) s) = phase s \<and>
   logi (onmessage (MsgSet ps) s) = logi s \<and>
   lx (onmessage (MsgSet ps) s) = lx s \<and>
   ly (onmessage (MsgSet ps) s) = ly s \<and>
   lz (onmessage (MsgSet ps) s) = lz s \<and>
   rx (onmessage (MsgSet ps) s) = rx s \<and>
   ry (onmessage (MsgSet ps) s) = ry s \<and>
   rz (onmessage (MsgSet ps) s) = rz s \<and>
   nlp (onmessage (MsgSet ps) s) = nlp s \<and>
   pinkB0 (onmessage (MsgSet ps) s) = pinkB0 s \<and>
   pinkB1 (onmessage (MsgSet ps) s) = pinkB1 s \<and>
   pinkB2 (onmessage (MsgSet ps) s) = pinkB2 s \<and>
   pinkB3 (onmessage (MsgSet ps) s) = pinkB3 s \<and>
   pinkB4 (onmessage (MsgSet ps) s) = pinkB4 s \<and>
   pinkB5 (onmessage (MsgSet ps) s) = pinkB5 s \<and>
   pinkB6 (onmessage (MsgSet ps) s) = pinkB6 s \<and>
   brownVal (onmessage (MsgSet ps) s) = brownVal s \<and>
   velvetCounter (onmessage (MsgSet ps) s) = velvetCounter s \<and>
   velvetNext (onmessage (MsgSet ps) s) = velvetNext s \<and>
   shepardPhases (onmessage (MsgSet ps) s) = shepardPhases s \<and>
   shepardT (onmessage (MsgSet ps) s) = shepardT s \<and>
   ksBuf (onmessage (MsgSet ps) s) = ksBuf s \<and>
   ksIdx (onmessage (MsgSet ps) s) = ksIdx s \<and>
   ksN (onmessage (MsgSet ps) s) = ksN s \<and>
   formula (onmessage (MsgSet ps) s) = formula s \<and>
   sr (onmessage (MsgSet ps) s) = sr s \<and>
   randoms (onmessage (MsgSet ps) s) = randoms s"
  by (simp add: onmessage_def)

subsection \<open>The gain parameter\<close>

lemma ksLength_with_gain: "ksLength (with_gain a s) = ksLength s"
  by (simp add: ksLength_def with_gain_def)

lemma initKS_with_gain: "initKS force (with_gain a s) = with_gain a (initKS force s)"
  unfolding initKS_def ksLength_with_gain Let_def split_def
  by (auto simp add: with_gain_def)

lemma logistic_step_with_gain: "logistic_step (with_gain a s) = logistic_step s"
  by (simp add: logistic_step_def with_gain_def)

lemma case_fm_with_gain:
  "case_fm (with_gain a s) = (fst (case_fm s), with_gain a (snd (case_fm s)))"
  unfolding case_fm_def with_gain_def Let_def split_def by simp

lemma case_logistic_with_gain:
  "case_logistic i (with_gain a s) = (fst (case_logistic i s), with_gain a (snd (case_logistic i s)))"
  unfolding case_logistic_def logistic_step_with_gain Let_def split_def
  unfolding with_gain_def by simp

lemma case_gliss_with_gain:
  "case_gliss (with_gain a s) = (fst (case_gliss s), with_gain a (snd (case_gliss s)))"
  unfolding case_gliss_def with_gain_def Let_def split_def by simp

lemma case_additive_with_gain:
  "case_additive (with_gain a s) = (fst (case_additive s), with_gain a (snd (case_additive s)))"
  unfolding case_additive_def with_gain_def Let_def split_def
  by (simp del: upt_Suc)

lemma case_pm_with_gain:
  "case_pm (with_gain a s) = (fst (case_pm s), with_gain a (snd (case_pm s)))"
  unfolding case_pm_def with_gain_def Let_def split_def by simp

lemma case_beats_with_gain:
  "case_beats (with_gain a s) = (fst (case_beats s), with_gain a (snd (case_beats s)))"
  unfolding case_beats_def with_gain_def Let_def split_def by simp

lemma case_dist_with_gain:
  "case_dist (with_gain a s) = (fst (case_dist s), with_gain a (snd (case_dist s)))"
  unfolding case_dist_def with_gain_def Let_def split_def by simp

lemma case_quasi_with_gain:
  "case_quasi (with_gain a s) = (fst (case_quasi s), with_gain a (snd (case_quasi s)))"
  unfolding case_quasi_def with_gain_def Let_def split_def by simp

lemma case_lorenz_with_gain:
  "case_lorenz (with_gain a s) = (fst (case_lorenz s), with_gain a (snd (case_lorenz s)))"
  unfolding case_lorenz_def with_gain_def Let_def split_def by simp

lemma case_karplus_with_gain:
  "case_karplus (with_gain a s) = (fst (case_karplus s), with_gain a (snd (case_karplus s)))"
  unfolding case_karplus_def initKS_with_gain Let_def split_def
  unfolding with_gain_def by simp

lemma case_noiselp_with_gain:
  "case_noiselp (with_gain a s) = (fst (case_noiselp s), with_gain a (snd (case_noiselp s)))"
  unfolding case_noiselp_def with_gain_def Let_def split_def by simp

lemma case_pinknoise_with_gain:
  "case_pinknoise (with_gain a s) = (fst (case_pinknoise s), with_gain a (snd (case_pinknoise s)))"
  unfolding case_pinknoise_def with_gain_def Let_def split_def by simp

lemma case_brownnoise_with_gain:
  "case_brownnoise (with_gain a s) = (fst (case_brownnoise s), with_gain a (snd (case_brownnoise s)))"
  unfolding case_brownnoise_def with_gain_def Let_def split_def by simp

lemma case_velvetnoise_with_gain:
  "case_velvetnoise (with_gain a s) = (fst (case_velvetnoise s), with_gain a (snd (case_velvetnoise s)))"
  unfolding case_velvetnoise_def with_gain_def Let_def split_def by simp

lemma case_rossler_with_gain:
  "case_rossler (with_gain a s) = (fst (case_rossler s), with_gain a (snd (case_rossler s)))"
  unfolding case_rossler_def with_gain_def Let_def split_def by simp

lemma case_shepard_with_gain:
  "case_shepard (with_gain a s) = (fst (case_shepard s), with_gain a (snd (case_shepard s)))"
  unfolding case_shepard_def with_gain_def Let_def split_def by (simp del: upt_Suc)

lemma formula_with_gain: "formula (with_gain a s) = formula s"
  by (simp add: with_gain_def)

lemma formula_switch_with_gain:
  "formula_switch i (with_gain a s) = (fst (formula_switch i s), with_gain a (snd (formula_switch i s)))"
  unfolding formula_switch_def formula_with_gain
  by (simp add: case_fm_with_gain case_logistic_with_gain case_gliss_with_gain
      case_additive_with_gain case_pm_with_gain case_beats_with_gain case_dist_with_gain
      case_quasi_with_gain case_lorenz_with_gain case_karplus_with_gain case_noiselp_with_gain
      case_pinknoise_with_gain case_brownnoise_with_gain case_velvetnoise_with_gain
      case_rossler_with_gain case_shepard_with_gain)

lemma with_gain_fields:
  "this_p (with_gain a s) = (this_p s)\<lparr>gain := a\<rparr>"
  "this_t (with_gain a s) = this_t s"
  "sr (with_gain a s) = sr s"
  "phase (with_gain a s) = phase s"
  "(with_gain a s)\<lparr>this_t := v\<rparr> = with_gain a (s\<lparr>this_t := v\<rparr>)"
  "(with_gain a s)\<lparr>phase := v\<rparr> = with_gain a (s\<lparr>phase := v\<rparr>)"
  by (simp_all add: with_gain_def)

lemma loop_body_with_gain_state:
  "snd (loop_body i (with_gain a s)) = with_gain a (snd (loop_body i s))"
  unfolding loop_body_def formula_switch_with_gain Let_def split_def
  by (simp add: with_gain_fields)

lemma loop_body_sample:
  "fst (loop_body i s) = fst (formula_switch i s) * gain_or_default (this_p s)"
  unfolding loop_body_def Let_def split_def
  by (simp add: formula_switch_frame)

lemma loop_body_with_gain_sample:
  "fst (loop_body i (with_gain a s)) =
   fst (loop_body i (with_gain (Some 1) s)) * gain_or_default ((this_p s)\<lparr>gain := a\<rparr>)"
  by (simp add: loop_body_sample formula_switch_with_gain with_gain_fields gain_or_default_def)

lemma process_loop_with_gain:
  "fst (process_loop i m (with_gain a s)) =
     map (\<lambda>x. x * gain_or_default ((this_p s)\<lparr>gain := a\<rparr>)) (fst (process_loop i m (with_gain (Some 1) s)))
   \<and> snd (process_loop i m (with_gain a s)) = with_gain a (snd (process_loop i m s))"
proof (induction m arbitrary: i s)
  case 0
  show ?case by simp
next
  case (Suc m)
  let ?s' = "snd (loop_body i s)"
  have p: "this_p ?s' = this_p s" by (simp add: loop_body_frame)
  show ?case
    using Suc.IH [of "Suc i" ?s']
    by (simp add: split_def Let_def loop_body_with_gain_state p)
       (rule loop_body_with_gain_sample)
qed

lemma with_gain_same: "with_gain (gain (this_p s)) s = s"
  by (simp add: with_gain_def)

text \<open>
  Claim C2, as amended.  The generator does scale its samples by its own gain: the block
  that \<^verbatim>\<open>process\<close> writes is the block the same processor writes with gain 1, multiplied
  sample by sample by \<^verbatim>\<open>p.gain ?? 0.2\<close>.  This holds for every formula id, parameter object,
  state and block length.  The gain node of the mixer is driven to the same value when the
  formula is enabled (and to 0 when it is disabled), so the gain is applied at both places.
\<close>

theorem generator_output_scaled_by_gain:
  "fst (process n s) =
     map (\<lambda>x. x * gain_or_default (this_p s)) (fst (process n (with_gain (Some 1) s)))
   \<and> enableFormula_targetGain (this_p s) True = gain_or_default (this_p s)
   \<and> enableFormula_targetGain (this_p s) False = 0"
proof -
  have "fst (process_loop 0 n (with_gain (gain (this_p s)) s)) =
     map (\<lambda>x. x * gain_or_default ((this_p s)\<lparr>gain := gain (this_p s)\<rparr>))
       (fst (process_loop 0 n (with_gain (Some 1) s)))"
    using process_loop_with_gain [of 0 n "gain (this_p s)" s] by blast
  then show ?thesis
    by (simp add: process_def split_def Let_def with_gain_same enableFormula_targetGain_def)
qed

lemma fill_noise_randoms: "snd (fill_noise n g) = (\<lambda>k. g (k + n))"
  by (induction n arbitrary: g) (simp_all add: split_def Let_def Math_random_def)

lemma no_noise_shift: "(\<lambda>k. no_noise (k + n)) = no_noise"
  by (rule ext) (simp add: no_noise_def)

text \<open>
  Claim C2 as stated fails: the velvet-noise generator, fresh from its constructor, writes
  the first sample \<open>-1\<close> with gain 1 and \<open>-1/2\<close> with gain 1/2.
\<close>

theorem generator_output_depends_on_gain:
  "fst (process 1 (onmessage (MsgSet [(''gain'', 1)]) velvet_probe)) = [- 1] \<and>
   fst (process 1 (onmessage (MsgSet [(''gain'', 1 / 2)]) velvet_probe)) = [- 1 / 2] \<and>
   fst (process 1 (onmessage (MsgSet [(''gain'', 1)]) velvet_probe)) \<noteq>
   fst (process 1 (onmessage (MsgSet [(''gain'', 1 / 2)]) velvet_probe))"
  by (simp add: process_def velvet_probe_def new_FormulaGeneratorProcessor_def initKS_def
      onmessage_def assign_key_def loop_body_def formula_switch_def case_velvetnoise_def
      Let_def split_def fill_noise_randoms no_noise_shift Math_random_def gain_or_default_def
      no_noise_def)

subsection \<open>The formula id \<^verbatim>\<open>am\<close>\<close>

lemma loop_body_time: "this_t (snd (loop_body i s)) = this_t (snd (formula_switch i s)) + 1 / sr s"
  unfolding loop_body_def Let_def split_def by (simp add: formula_switch_frame)

lemma sin_small_pos: "0 < x \<Longrightarrow> x < 1 \<Longrightarrow> 0 < sin (twoPi * x * (1 / 2))"
proof -
  assume a: "0 < x" "x < 1"
  have "0 < pi * x" using a by simp
  moreover have "pi * x < pi" using a by simp
  ultimately have "0 < sin (pi * x)" by (rule sin_gt_zero)
  then show ?thesis by (simp add: twoPi_def)
qed

text \<open>
  Claim C1 does not hold of the code.  The switch has no case \<^verbatim>\<open>'am'\<close>, so the generator
  constructed for \<^verbatim>\<open>am\<close> falls to the default branch and writes a block of zeros.  After one
  sample the engine time is \<open>1 / 44100\<close>, where the product of the two sinusoids at \<^verbatim>\<open>f1\<close>
  and \<^verbatim>\<open>f2\<close> is not zero.
\<close>

theorem am_formula_is_silent:
  "fst (process 128 am_probe) = replicate 128 0 \<and>
   this_t (fst (snd (process 1 am_probe))) = 1 / 44100 \<and>
   sin (twoPi * f1 (this_p am_probe) * (1 / 44100)) *
   sin (twoPi * f2 (this_p am_probe) * (1 / 44100)) \<noteq> 0"
proof -
  have f: "formula am_probe \<notin> set switch_cases"
    by (simp add: am_probe_def new_fields switch_cases_def)
  have 1: "fst (process 128 am_probe) = replicate 128 0"
    using f by (simp add: process_def split_def Let_def process_loop_default)
  have 2: "this_t (fst (snd (process 1 am_probe))) = 1 / 44100"
    using f by (simp add: process_def split_def Let_def loop_body_time formula_switch_default)
       (simp add: am_probe_def new_fields)
  have "0 < sin (twoPi * (440 / 44100) * (1 / 2))" by (rule sin_small_pos) simp_all
  moreover have "0 < sin (twoPi * (442 / 44100) * (1 / 2))" by (rule sin_small_pos) simp_all
  ultimately have 3: "sin (twoPi * f1 (this_p am_probe) * (1 / 44100)) *
      sin (twoPi * f2 (this_p am_probe) * (1 / 44100)) \<noteq> 0"
    by (simp add: am_probe_def new_fields default_params_def)
  from 1 2 3 show ?thesis by blast
qed

subsection \<open>The empty formula id\<close>



subsection \<open>The logistic map\<close>

lemma logistic_step_frame: "logistic_step (snd (loop_body i s)) = logistic_step s"
  by (simp add: logistic_step_def loop_body_frame)

lemma loop_body_logi:
  "formula s = ''logistic'' \<Longrightarrow>
   logi (snd (loop_body i s)) =
     (if int i mod logistic_step s = 0
      then clamp (pr (this_p s) * logi s * (1 - logi s)) 0 1 else logi s)"
  unfolding loop_body_def formula_switch_def case_logistic_def Let_def split_def
  by simp

lemma logistic_no_update:
  "formula s = ''logistic'' \<Longrightarrow> 0 < i \<Longrightarrow> int (i + m) \<le> logistic_step s \<Longrightarrow>
   logi (snd (process_loop i m s)) = logi s"
proof (induction m arbitrary: i s)
  case 0
  show ?case by simp
next
  case (Suc m)
  let ?s' = "snd (loop_body i s)"
  have i: "int i mod logistic_step s \<noteq> 0"
    using Suc.prems by simp
  have "logi (snd (process_loop (Suc i) m ?s')) = logi ?s'"
    using Suc.prems by (intro Suc.IH) (simp_all add: loop_body_frame logistic_step_frame)
  then show ?case
    using Suc.prems(1) i by (simp add: split_def Let_def loop_body_logi)
qed

lemma logistic_block:
  assumes "formula s = ''logistic''" "0 < n" "int n \<le> logistic_step s"
  shows "logi (fst (snd (process n s))) = clamp (pr (this_p s) * logi s * (1 - logi s)) 0 1"
proof -
  obtain m where n: "n = Suc m" using assms(2) by (cases n) auto
  let ?s' = "snd (loop_body 0 s)"
  have "logi (snd (process_loop (Suc 0) m ?s')) = logi ?s'"
    using assms n by (intro logistic_no_update) (simp_all add: loop_body_frame logistic_step_frame)
  then show ?thesis
    using assms(1) by (simp add: n process_def split_def Let_def loop_body_logi)
qed

lemma process_frame:
  "formula (fst (snd (process n s))) = formula s"
  "sr (fst (snd (process n s))) = sr s"
  "this_p (fst (snd (process n s))) = this_p s"
  by (simp_all add: process_def split_def Let_def process_loop_frame)

text \<open>
  Claim C3 does not hold of the code.  The update test is \<^verbatim>\<open>i % step === 0\<close> on the index
  \<open>i\<close> within the block, so a block that is not longer than \<open>step\<close> applies the recurrence
  exactly once, at its first sample (lemma \<open>logistic_block\<close>).  With the default parameters
  at 44.1 kHz the step is 1102 samples, and two blocks of 128 samples apply the recurrence
  twice: 0.33, then 0.853446, then 0.48279...
\<close>

theorem logistic_updates_once_per_block:
  "logistic_step logistic_probe = 1102 \<and>
   logi logistic_probe = 33 / 100 \<and>
   logi (fst (snd (process 128 logistic_probe))) = 426723 / 500000 \<and>
   logi (fst (snd (process 128 (fst (snd (process 128 logistic_probe)))))) =
     6034913385303 / 12500000000000"
proof -
  let ?s1 = "fst (snd (process 128 logistic_probe))"
  have st: "logistic_step logistic_probe = 1102"
    by (simp add: logistic_step_def logistic_probe_def new_fields default_params_def)
  have st1: "logistic_step ?s1 = 1102"
    using st by (simp add: logistic_step_def process_frame)
  have f: "formula logistic_probe = ''logistic''"
    by (simp add: logistic_probe_def new_fields)
  have f1: "formula ?s1 = ''logistic''" by (simp add: process_frame f)
  have l0: "logi logistic_probe = 33 / 100"
    by (simp add: logistic_probe_def new_fields)
  have r0: "pr (this_p logistic_probe) = 386 / 100"
    by (simp add: logistic_probe_def new_fields default_params_def)
  have l1: "logi ?s1 = 426723 / 500000"
    using logistic_block [OF f, of 128] st by (simp add: l0 r0 clamp_def)
  have l2: "logi (fst (snd (process 128 ?s1))) = 6034913385303 / 12500000000000"
    using logistic_block [OF f1, of 128] st1 by (simp add: l1 r0 process_frame clamp_def)
  from st l0 l1 l2 show ?thesis by blast
qed

subsection \<open>The additive generator\<close>

lemma foldl_add_sum:
  "foldl (\<lambda>a k. a + h k) (a0::real) [m..<n] = a0 + sum h {m..<n}"
proof (induction n)
  case 0
  show ?case by simp
next
  case (Suc n)
  show ?case
  proof (cases "m \<le> n")
    case True
    then have "{m..<Suc n} = insert n {m..<n}" by auto
    with True Suc show ?thesis by simp
  next
    case False
    then show ?thesis by simp
  qed
qed

text \<open>
  Claim C7, as amended.  For the formula id \<^verbatim>\<open>additive\<close> the value of \<^verbatim>\<open>x\<close> (the sample
  before the gain) is the sum over \<open>k = 1, ..., N\<close> of
  \<open>(1/k) sin(2 pi move t + k) sin(2 pi k fund t)\<close>, times \<open>1 / log2(N + 1)\<close>, where
  \<open>N = max(1, floor(p.N))\<close> and \<open>t\<close> is the engine time.  The amplitude term has the factor
  \<open>2 pi\<close> that the claim leaves out.
\<close>

theorem additive_sample:
  assumes "formula s = ''additive''"
  shows "fst (formula_switch i s) =
      (\<Sum>k = 1..nat (max 1 \<lfloor>pN (this_p s)\<rfloor>).
          (1 / real k) * sin (twoPi * move (this_p s) * this_t s + real k)
            * sin (twoPi * (real k * fund (this_p s)) * this_t s))
      * (1 / log 2 (real (nat (max 1 \<lfloor>pN (this_p s)\<rfloor>)) + 1))"
proof -
  have "fst (formula_switch i s) = fst (case_additive s)"
    using assms by (simp add: formula_switch_def)
  also have "\<dots> =
      (\<Sum>k = 1..<Suc (nat (max 1 \<lfloor>pN (this_p s)\<rfloor>)).
          additive_term (fund (this_p s)) (move (this_p s)) (this_t s) k)
      * (1 / log 2 (real (nat (max 1 \<lfloor>pN (this_p s)\<rfloor>)) + 1))"
    unfolding case_additive_def Let_def foldl_add_sum by simp
  finally show ?thesis
    by (simp add: additive_term_def atLeastLessThanSuc_atLeastAtMost)
qed

lemma additive_probe_fields:
  "formula additive_probe = ''additive''"
  "this_t additive_probe = 1 / 44100"
  "pN (this_p additive_probe) = 1"
  "move (this_p additive_probe) = 35 / 100"
  "fund (this_p additive_probe) = 110"
  by (simp_all add: additive_probe_def loop_body_frame loop_body_time new_fields
      formula_switch_def case_additive_def Let_def assign_key_def default_params_def)

theorem additive_sample_witness:
  "formula additive_probe = ''additive'' \<and>
   fst (formula_switch 1 additive_probe) =
     sin (twoPi * (35 / 100) * (1 / 44100) + 1) * sin (twoPi * 110 * (1 / 44100))"
  using additive_sample [of additive_probe 1]
  by (simp add: additive_probe_fields)

text \<open>A lower bound of \<open>pi\<close>, from \<open>cos (2 x) = 1 - 2 (sin x)\<^sup>2\<close> and \<open>sin x \<le> x\<close>.\<close>

lemma pi_gt_21_10: "21 / 10 < pi"
proof -
  have s0: "0 \<le> sin (21 / 40 :: real)"
    using pi_ge_two by (intro sin_ge_zero) simp_all
  have s1: "sin (21 / 40 :: real) \<le> 21 / 40"
    by (rule sin_x_le_x) simp
  have "(sin (21 / 40 :: real))\<^sup>2 \<le> (21 / 40)\<^sup>2"
    using s1 s0 by (rule power_mono)
  then have "0 < 1 - 2 * (sin (21 / 40 :: real))\<^sup>2"
    by (simp add: power2_eq_square)
  also have "\<dots> = cos (2 * (21 / 40))"
    by (simp only: cos_double_sin)
  finally have "cos (pi / 2) < cos (21 / 20 :: real)" by simp
  then have "21 / 20 < pi / 2"
    using pi_ge_two by (subst (asm) cos_mono_less_eq) simp_all
  then show ?thesis by simp
qed

lemma sin_neq:
  assumes "- (pi / 2) \<le> x" "x \<le> pi / 2" "- (pi / 2) \<le> y" "y \<le> pi / 2" "x \<noteq> y"
  shows "sin x \<noteq> sin y"
  using assms sin_inj_pi by blast

text \<open>
  Claim C7 as stated fails: with one harmonic, at the engine time \<open>1 / 44100\<close> and the
  default \<^verbatim>\<open>move = 0.35\<close> and \<^verbatim>\<open>fund = 110\<close>, the value of \<^verbatim>\<open>x\<close> is not
  \<open>(1/1) sin(move t + 1) sin(2 pi 1 fund t) / log2(1 + 1)\<close>.
\<close>

theorem additive_without_two_pi_fails:
  "fst (formula_switch 1 additive_probe) \<noteq>
     (1 / 1) * sin (move (this_p additive_probe) * this_t additive_probe + 1)
       * sin (twoPi * (1 * fund (this_p additive_probe)) * this_t additive_probe)
       * (1 / log 2 (1 + 1))"
proof -
  have lhs: "fst (formula_switch 1 additive_probe) =
     sin (twoPi * (35 / 100) * (1 / 44100) + 1) * sin (twoPi * 110 * (1 / 44100))"
    by (simp add: formula_switch_def case_additive_def Let_def additive_probe_fields
        additive_term_def)
  have p3: "21 / 10 < pi" by (rule pi_gt_21_10)
  have p4: "pi < 4" by (rule pi_less_4)
  have a: "sin (twoPi * (35 / 100) * (1 / 44100) + 1) \<noteq> sin (35 / 100 * (1 / 44100) + 1)"
  proof (rule sin_neq)
    show "- (pi / 2) \<le> twoPi * (35 / 100) * (1 / 44100) + 1" using p3 by (simp add: twoPi_def)
    show "twoPi * (35 / 100) * (1 / 44100) + 1 \<le> pi / 2" using p3 p4 by (simp add: twoPi_def)
    show "- (pi / 2) \<le> 35 / 100 * (1 / 44100) + (1::real)" using p3 by simp
    show "35 / 100 * (1 / 44100) + 1 \<le> pi / 2" using p3 by simp
    show "twoPi * (35 / 100) * (1 / 44100) + 1 \<noteq> 35 / 100 * (1 / 44100) + 1"
      using p3 by (simp add: twoPi_def)
  qed
  have "0 < sin (twoPi * (220 / 44100) * (1 / 2))" by (rule sin_small_pos) simp_all
  then have b: "sin (twoPi * 110 * (1 / 44100)) \<noteq> 0" by (simp add: mult.commute)
  show ?thesis
    unfolding lhs using a b by (simp add: additive_probe_fields)
qed

section \<open>Properties of the effects\<close>

subsection \<open>Reverb\<close>

lemma fill_channel_randoms: "snd (fill_channel sRate decay is g) = (\<lambda>k. g (k + length is))"
  by (induction "is" arbitrary: g) (simp_all add: split_def Let_def Math_random_def)

lemma irLength_pos: "0 < irLength sRate seconds"
  by (simp add: irLength_def)

lemma makeImpulseResponse_randoms:
  "snd (makeImpulseResponse sRate seconds decay g) = (\<lambda>k. g (k + 2 * irLength sRate seconds))"
  by (simp add: makeImpulseResponse_def Let_def split_def fill_channel_randoms add.assoc mult_2)

lemma makeImpulseResponse_first:
  "hd (hd (fst (makeImpulseResponse sRate seconds decay g))) = g 0 * 2 - 1"
proof -
  have "[0..<irLength sRate seconds] = 0 # [1..<irLength sRate seconds]"
    using irLength_pos [of sRate seconds] by (simp add: upt_conv_Cons)
  then show ?thesis
    by (simp add: makeImpulseResponse_def Let_def split_def Math_random_def)
qed

lemma Reverb_update_buffer:
  "convolver_buffer (fst (Reverb_update sRate decay mix (rv, g))) =
     Some (fst (makeImpulseResponse sRate (min 6 (max 0.3 (decay * 1.4))) decay g))"
  by (simp add: Reverb_update_def Reverb_setDecay_def Reverb_setMix_def Let_def split_def)

lemma Reverb_update_randoms:
  "snd (Reverb_update sRate decay mix (rv, g)) =
     (\<lambda>k. g (k + 2 * irLength sRate (min 6 (max 0.3 (decay * 1.4)))))"
  by (simp add: Reverb_update_def Reverb_setDecay_def Let_def split_def
      makeImpulseResponse_randoms)

text \<open>
  Claim C5, as amended.  Every \<^verbatim>\<open>Reverb.update(decay, mix)\<close> replaces the impulse response
  of the convolver, whatever the Reverb was before and so whether or not the decay differs
  from that of the previous update: the new buffer is made from the next
  \<open>2 * max(1, floor(sampleRate * min(6, max(0.3, 1.4 * decay))))\<close> random draws, which the
  update consumes.  The mix sets the dry gain to \<open>1 - mix\<close> and the wet gain to \<open>mix\<close>.
  \<^verbatim>\<open>EffectsChain.updateParams\<close> runs this update on every call.
\<close>

theorem reverb_update_regenerates:
  "convolver_buffer (fst (Reverb_update sRate decay mix (rv, g))) =
     Some (fst (makeImpulseResponse sRate (min 6 (max 0.3 (decay * 1.4))) decay g))
   \<and> snd (Reverb_update sRate decay mix (rv, g)) =
     (\<lambda>k. g (k + 2 * irLength sRate (min 6 (max 0.3 (decay * 1.4)))))
   \<and> reverb_dryGain (fst (Reverb_update sRate decay mix (rv, g))) = 1 - mix
   \<and> reverb_wetGain (fst (Reverb_update sRate decay mix (rv, g))) = mix
   \<and> reverb_fx (updateParams state ec) =
       fst (Reverb_update (ctx_sampleRate ec) (reverbDecay state) (reverbMix state)
              (reverb_fx ec, ctx_randoms ec))"
  by (simp add: Reverb_update_buffer Reverb_update_randoms)
     (simp add: Reverb_update_def Reverb_setMix_def updateParams_def Let_def split_def)

text \<open>
  Claim C5 as stated fails: after an update with decay 2.8 and mix 0.25, an update with the
  same decay and mix 0.5 leaves a different impulse response in the convolver (the first
  sample of its first channel is \<open>-1\<close> before and \<open>0\<close> after, on the draws \<open>spike_noise\<close>).
\<close>

theorem reverb_mix_change_replaces_buffer:
  "convolver_buffer (fst reverb_probe2) \<noteq> convolver_buffer (fst reverb_probe1)"
proof -
  obtain rv g where p1: "reverb_probe1 = (rv, g)" by (cases reverb_probe1)
  have p1': "Reverb_update 44100 2.8 0.25 (new_Reverb, spike_noise) = (rv, g)"
    using p1 by (simp only: reverb_probe1_def)
  have "snd (Reverb_update 44100 2.8 0.25 (new_Reverb, spike_noise)) =
      (\<lambda>k. spike_noise (k + 2 * irLength 44100 (min 6 (max 0.3 (2.8 * 1.4)))))"
    by (rule Reverb_update_randoms)
  then have g: "g = (\<lambda>k. spike_noise (k + 2 * irLength 44100 (min 6 (max 0.3 (2.8 * 1.4)))))"
    by (simp only: p1' snd_conv)
  have b1: "convolver_buffer (fst reverb_probe1) =
      Some (fst (makeImpulseResponse 44100 (min 6 (max 0.3 (2.8 * 1.4))) 2.8 spike_noise))"
    unfolding reverb_probe1_def by (rule Reverb_update_buffer)
  have b2: "convolver_buffer (fst reverb_probe2) =
      Some (fst (makeImpulseResponse 44100 (min 6 (max 0.3 (2.8 * 1.4))) 2.8 g))"
    unfolding reverb_probe2_def p1 by (rule Reverb_update_buffer)
  have h1: "hd (hd (fst (makeImpulseResponse 44100 (min 6 (max 0.3 (2.8 * 1.4))) 2.8 spike_noise))) = - 1"
    by (simp only: makeImpulseResponse_first) (simp add: spike_noise_def)
  have "0 < irLength 44100 (min 6 (max 0.3 (2.8 * 1.4)))" by (rule irLength_pos)
  then have "g 0 = 1 / 2" by (simp add: g spike_noise_def)
  then have h2: "hd (hd (fst (makeImpulseResponse 44100 (min 6 (max 0.3 (2.8 * 1.4))) 2.8 g))) = 0"
    by (simp add: makeImpulseResponse_first)
  show ?thesis
    unfolding b1 b2 using h1 h2 by auto
qed

subsection \<open>Phaser\<close>

lemma setDepth_loop_fold:
  "setDepth_loop v is (fs, gs) =
     (fold (\<lambda>i fs. fs[i := (fs ! i)\<lparr>biquad_frequency := 1000\<rparr>]) is fs,
      fold (\<lambda>i gs. gs[i := v]) is gs)"
  by (induction "is" arbitrary: fs gs) simp_all

lemma fold_update_length: "length (fold (\<lambda>i xs. xs[i := h i xs]) is xs) = length xs"
  by (induction "is" arbitrary: xs) simp_all

lemma fold_update_replicate:
  "n \<le> length gs \<Longrightarrow> fold (\<lambda>i gs. gs[i := v]) [0..<n] gs = replicate n v @ drop n gs"
proof (induction n)
  case 0
  show ?case by simp
next
  case (Suc n)
  then have n: "n < length gs" by simp
  have "fold (\<lambda>i gs. gs[i := v]) [0..<Suc n] gs = (replicate n v @ drop n gs)[n := v]"
    using Suc by simp
  also have "\<dots> = replicate n v @ (drop n gs)[0 := v]"
    by (simp add: list_update_append)
  also have "drop n gs = gs ! n # drop (Suc n) gs"
    using n by (simp add: Cons_nth_drop_Suc)
  finally show ?case by (simp add: replicate_append_same)
qed

lemma Phaser_update_filters_length:
  "length (filters (Phaser_update rate d st fb mix ph)) = length (filters ph)"
  using fold_update_length [of "\<lambda>i fs. (fs ! i)\<lparr>biquad_frequency := 1000\<rparr>"]
  by (simp add: Phaser_update_def Phaser_setMix_def Phaser_setFeedback_def Phaser_setDepth_def
      Phaser_setRate_def Let_def split_def setDepth_loop_fold)

lemma Phaser_update_lfoGains:
  "length (filters ph) \<le> length (lfoGains ph) \<Longrightarrow>
   lfoGains (Phaser_update rate d st fb mix ph) =
     replicate (length (filters ph)) (3000 * d) @ drop (length (filters ph)) (lfoGains ph)"
  by (simp add: Phaser_update_def Phaser_setMix_def Phaser_setFeedback_def Phaser_setDepth_def
      Phaser_setRate_def Let_def split_def setDepth_loop_fold fold_update_replicate)

lemma phaser_after_snoc:
  "phaser_after (us @ [(rate, d, st, fb, mix)]) = Phaser_update rate d st fb mix (phaser_after us)"
  by (simp add: phaser_after_def)

lemma phaser_after_lengths:
  "length (filters (phaser_after us)) = 8 \<and> length (lfoGains (phaser_after us)) = 8"
proof (induction us rule: rev_induct)
  case Nil
  show ?case by (simp add: phaser_after_def new_Phaser_def MAX_STAGES_def)
next
  case (snoc u us)
  obtain rate d st fb mix where u: "u = (rate, d, st, fb, mix)" by (cases u)
  show ?case
    using snoc by (simp add: u phaser_after_snoc Phaser_update_filters_length
        Phaser_update_lfoGains)
qed

subsection \<open>The routing\<close>

lemma path_links_snoc:
  "path \<noteq> [] \<Longrightarrow> path_links (path @ [x]) = path_links path \<union> {(last path, x)}"
proof (induction path)
  case Nil
  then show ?case by simp
next
  case (Cons a path)
  show ?case
  proof (cases path)
    case Nil
    then show ?thesis by (simp add: path_links_def)
  next
    case (Cons b rest)
    with Cons.IH show ?thesis by (auto simp add: path_links_def)
  qed
qed

lemma attach_reach:
  assumes r: "routed n E cur path"
    and X: "X \<notin> set path"
    and S: "\<forall>x \<in> S. owner x = X \<and> \<not> sum_below n x"
    and G: "\<forall>e \<in> G. (fst e = cur \<or> fst e \<in> S) \<and> snd e \<in> S"
    and GR: "\<forall>x \<in> S. (cur, x) \<in> G\<^sup>*"
  shows "reach (E \<union> G) = reach E \<union> S"
proof
  show "reach (E \<union> G) \<subseteq> reach E \<union> S"
  proof
    fix x assume "x \<in> reach (E \<union> G)"
    then have "(InputNode, x) \<in> (E \<union> G)\<^sup>*" by (simp add: reach_def)
    then show "x \<in> reach E \<union> S"
    proof (induction rule: rtrancl_induct)
      case base
      show ?case by (simp add: reach_def)
    next
      case (step y z)
      from step.hyps(2) show ?case
      proof
        assume yz: "(y, z) \<in> E"
        from step.IH show ?thesis
        proof
          assume "y \<in> reach E"
          with yz have "z \<in> reach E" by (auto simp: reach_def intro: rtrancl_into_rtrancl)
          then show ?thesis by simp
        next
          assume y: "y \<in> S"
          with S X have "owner y \<notin> set path" "\<not> sum_below n y" by auto
          with r yz show ?thesis unfolding routed_def by force
        qed
      next
        assume "(y, z) \<in> G"
        with G show ?thesis by force
      qed
    qed
  qed
next
  show "reach E \<union> S \<subseteq> reach (E \<union> G)"
  proof
    fix x assume "x \<in> reach E \<union> S"
    then show "x \<in> reach (E \<union> G)"
    proof
      assume "x \<in> reach E"
      then have "(InputNode, x) \<in> E\<^sup>*" by (simp add: reach_def)
      then have "(InputNode, x) \<in> (E \<union> G)\<^sup>*"
        by (rule rtrancl_mono [THEN subsetD, rotated]) simp
      then show ?thesis by (simp add: reach_def)
    next
      assume "x \<in> S"
      with GR have "(cur, x) \<in> G\<^sup>*" by simp
      then have 1: "(cur, x) \<in> (E \<union> G)\<^sup>*"
        by (rule rtrancl_mono [THEN subsetD, rotated]) simp
      from r have "(InputNode, cur) \<in> E\<^sup>*" by (simp add: routed_def reach_def)
      then have 2: "(InputNode, cur) \<in> (E \<union> G)\<^sup>*"
        by (rule rtrancl_mono [THEN subsetD, rotated]) simp
      from 2 1 show ?thesis by (simp add: reach_def)
    qed
  qed
qed

lemma attach:
  assumes r: "routed n E cur path"
    and X: "X \<notin> set path"
    and S: "\<forall>x \<in> S. owner x = X \<and> \<not> sum_below n x"
    and G: "\<forall>e \<in> G. (fst e = cur \<or> fst e \<in> S) \<and> snd e \<in> S"
    and G1: "\<exists>b. (cur, b) \<in> G"
    and GR: "\<forall>x \<in> S. (cur, x) \<in> G\<^sup>*"
    and c: "cur' \<in> S"
  shows "routed n (E \<union> G) cur' (path @ [X])"
proof -
  have R: "reach (E \<union> G) = reach E \<union> S"
    using r X S G GR by (rule attach_reach)
  have ne: "path \<noteq> []" and cr: "cur \<in> reach E" and oc: "owner cur = last path"
    and L: "links E = path_links path"
    and RE: "\<forall>x \<in> reach E. owner x \<in> set path \<and> \<not> sum_below n x"
    and EE: "\<forall>e \<in> E. owner (fst e) \<notin> set path \<longrightarrow> sum_below n (fst e)"
    using r by (simp_all add: routed_def)
  have lastp: "last path \<in> set path" using ne by simp
  have curS: "cur \<notin> S" using S X oc lastp by auto
  have ES: "\<And>a b. (a, b) \<in> E \<Longrightarrow> a \<notin> S"
  proof
    fix a b assume ab: "(a, b) \<in> E" and "a \<in> S"
    with S X have "owner a \<notin> set path" "\<not> sum_below n a" by auto
    with EE ab show False by force
  qed
  have "links (E \<union> G) = links E \<union> {(last path, X)}"
  proof (rule set_eqI, rule iffI)
    fix p assume "p \<in> links (E \<union> G)"
    then obtain a b where p: "p = (owner a, owner b)" and ab: "(a, b) \<in> E \<union> G"
      and a: "a \<in> reach E \<union> S" and ne: "owner a \<noteq> owner b"
      by (auto simp: links_def R)
    from ab show "p \<in> links E \<union> {(last path, X)}"
    proof
      assume e: "(a, b) \<in> E"
      with ES a have "a \<in> reach E" by auto
      with e ne p show ?thesis by (auto simp: links_def)
    next
      assume g: "(a, b) \<in> G"
      with G have b: "b \<in> S" and a': "a = cur \<or> a \<in> S" by force+
      from a' show ?thesis
      proof
        assume "a = cur"
        with b S oc p show ?thesis by simp
      next
        assume "a \<in> S"
        with b S ne show ?thesis by simp
      qed
    qed
  next
    fix p assume "p \<in> links E \<union> {(last path, X)}"
    then show "p \<in> links (E \<union> G)"
    proof
      assume "p \<in> links E"
      then show ?thesis by (auto simp: links_def R)
    next
      assume p: "p \<in> {(last path, X)}"
      from G1 obtain b where cb: "(cur, b) \<in> G" by blast
      with G have "b \<in> S" by force
      with S have ob: "owner b = X" by simp
      have "owner cur \<noteq> owner b" using ob oc X lastp by auto
      with cb cr have "(owner cur, owner b) \<in> links (E \<union> G)"
        unfolding links_def R by blast
      with p ob oc show ?thesis by simp
    qed
  qed
  then have L': "links (E \<union> G) = path_links (path @ [X])"
    using L ne by (simp add: path_links_snoc)
  have R1: "\<forall>x \<in> reach (E \<union> G). owner x \<in> set (path @ [X]) \<and> \<not> sum_below n x"
    unfolding R using RE S by auto
  have E1: "\<forall>e \<in> E \<union> G. owner (fst e) \<notin> set (path @ [X]) \<longrightarrow> sum_below n (fst e)"
  proof
    fix e assume "e \<in> E \<union> G"
    then show "owner (fst e) \<notin> set (path @ [X]) \<longrightarrow> sum_below n (fst e)"
    proof
      assume "e \<in> E"
      with EE show ?thesis by auto
    next
      assume "e \<in> G"
      with G have "fst e = cur \<or> fst e \<in> S" by blast
      then show ?thesis using oc lastp S by auto
    qed
  qed
  have c1: "cur' \<in> reach (E \<union> G)" using c R by simp
  have c2: "owner cur' = last (path @ [X])" using c S by simp
  show ?thesis
    unfolding routed_def using c1 c2 L' R1 E1 by simp
qed

lemma connect_simps:
  "set (edges (connect a b g)) = insert (a, b) (set (edges g))"
  "nextId (connect a b g) = nextId g"
  by (simp_all add: connect_def)

lemma createGain_simps:
  "fst (createGain mk g) = mk (nextId g)"
  "edges (snd (createGain mk g)) = edges g"
  "nextId (snd (createGain mk g)) = Suc (nextId g)"
  by (simp_all add: createGain_def)

lemma sum_below_mono: "sum_below k a \<Longrightarrow> k \<le> m \<Longrightarrow> sum_below m a"
  by (cases a) simp_all

lemma tidy_connect:
  "tidy g \<Longrightarrow> a \<in> set owned_nodes \<or> sum_below (nextId g) a \<Longrightarrow> tidy (connect a b g)"
  by (simp add: tidy_def connect_simps)

lemma tidy_createGain: "tidy g \<Longrightarrow> tidy (snd (createGain mk g))"
  by (auto simp add: tidy_def createGain_simps intro: sum_below_mono)

lemma fold_disconnect:
  "set (edges (fold disconnect ns g)) = {e \<in> set (edges g). fst e \<notin> set ns} \<and>
   nextId (fold disconnect ns g) = nextId g"
  by (induction ns arbitrary: g) (auto simp add: disconnect_def)

lemma disconnectAll_simps:
  "set (edges (disconnectAll g)) = {e \<in> set (edges g). fst e \<notin> set owned_nodes}"
  "nextId (disconnectAll g) = nextId g"
  using fold_disconnect [of "owned_nodes" g]
  by (simp_all add: disconnectAll_def owned_nodes_def)

lemma owned_simps:
  "InputNode \<in> set owned_nodes" "OutputNode \<in> set owned_nodes" "FilterNode \<in> set owned_nodes"
  "ChorusDelay \<in> set owned_nodes" "ChorusDry \<in> set owned_nodes" "ChorusWet \<in> set owned_nodes"
  "ChorusFeedback \<in> set owned_nodes" "ReverbConvolver \<in> set owned_nodes"
  "ReverbDry \<in> set owned_nodes" "ReverbWet \<in> set owned_nodes" "LimiterNode \<in> set owned_nodes"
  "DelayDelay \<in> set owned_nodes" "DelayDry \<in> set owned_nodes" "DelayWet \<in> set owned_nodes"
  "DelayFeedback \<in> set owned_nodes" "PhaserDry \<in> set owned_nodes" "PhaserWet \<in> set owned_nodes"
  "PhaserFeedback \<in> set owned_nodes" "PhaserInput \<in> set owned_nodes"
  "PhaserOutput \<in> set owned_nodes"
  "x \<in> set allFilters \<Longrightarrow> x \<in> set owned_nodes"
  by (simp_all add: owned_nodes_def)

lemma disconnectAll_wired:
  assumes "tidy g"
  shows "wired (nextId g) (InputNode, disconnectAll g) [Source]"
proof -
  let ?n = "nextId g"
  let ?E = "set (edges (disconnectAll g))"
  have old: "\<forall>e \<in> ?E. sum_below ?n (fst e)"
    using assms by (auto simp add: disconnectAll_simps tidy_def)
  have reach: "reach ?E = {InputNode}"
  proof
    show "reach ?E \<subseteq> {InputNode}"
    proof
      fix x assume "x \<in> reach ?E"
      then have "(InputNode, x) \<in> ?E\<^sup>*" by (simp add: reach_def)
      then show "x \<in> {InputNode}"
      proof (induction rule: rtrancl_induct)
        case base
        show ?case by simp
      next
        case (step y z)
        then have "(InputNode, z) \<in> ?E" by simp
        with old have "sum_below ?n InputNode" by force
        then show ?case by simp
      qed
    qed
  next
    show "{InputNode} \<subseteq> reach ?E" by (simp add: reach_def)
  qed
  have nolink: "links ?E = {}"
  proof -
    have "\<And>a b. (a, b) \<in> ?E \<Longrightarrow> a \<notin> reach ?E"
    proof
      fix a b assume ab: "(a, b) \<in> ?E" and "a \<in> reach ?E"
      with reach have "a = InputNode" by simp
      with ab old have "sum_below ?n InputNode" by force
      then show False by simp
    qed
    then show ?thesis by (auto simp add: links_def)
  qed
  have "routed ?n ?E InputNode [Source]"
    unfolding routed_def using reach nolink old by (simp add: path_links_def)
  moreover have "tidy (disconnectAll g)"
    using assms by (force simp add: tidy_def disconnectAll_simps)
  ultimately show ?thesis
    by (simp add: wired_def disconnectAll_simps owned_simps)
qed

lemma wired_cases:
  assumes "wired n ng path"
  obtains cur g where "ng = (cur, g)" "routed n (set (edges g)) cur path" "n \<le> nextId g"
    "tidy g" "cur \<in> set owned_nodes \<or> sum_below (nextId g) cur"
  using assms by (cases ng) (simp add: wired_def)

lemma route_filter_wired:
  assumes w: "wired n ng path" and X: "Stage FilterStage \<notin> set path"
  shows "wired n (route_filter on ng) (if on then path @ [Stage FilterStage] else path)"
proof (cases on)
  case False
  with w show ?thesis by (simp add: route_filter_def split_def)
next
  case True
  from w obtain cur g where ng: "ng = (cur, g)" and r: "routed n (set (edges g)) cur path"
    and n: "n \<le> nextId g" and t: "tidy g"
    and c: "cur \<in> set owned_nodes \<or> sum_below (nextId g) cur"
    by (rule wired_cases)
  have "routed n (set (edges g) \<union> {(cur, FilterNode)}) FilterNode (path @ [Stage FilterStage])"
    using r X by (rule attach [where S = "{FilterNode}"]) auto
  moreover have "tidy (connect cur FilterNode g)" using t c by (rule tidy_connect)
  ultimately show ?thesis
    using True n by (simp add: ng route_filter_def wired_def connect_simps owned_simps)
qed

lemma route_limiter_wired:
  assumes w: "wired n ng path" and X: "Stage LimiterStage \<notin> set path"
  shows "wired n (route_limiter on ng) (if on then path @ [Stage LimiterStage] else path)"
proof (cases on)
  case False
  with w show ?thesis by (simp add: route_limiter_def split_def)
next
  case True
  from w obtain cur g where ng: "ng = (cur, g)" and r: "routed n (set (edges g)) cur path"
    and n: "n \<le> nextId g" and t: "tidy g"
    and c: "cur \<in> set owned_nodes \<or> sum_below (nextId g) cur"
    by (rule wired_cases)
  have "routed n (set (edges g) \<union> {(cur, LimiterNode)}) LimiterNode (path @ [Stage LimiterStage])"
    using r X by (rule attach [where S = "{LimiterNode}"]) auto
  moreover have "tidy (connect cur LimiterNode g)" using t c by (rule tidy_connect)
  ultimately show ?thesis
    using True n by (simp add: ng route_limiter_def wired_def connect_simps owned_simps)
qed

lemma route_chorus_wired:
  assumes w: "wired n ng path" and X: "Stage ChorusStage \<notin> set path"
  shows "wired n (route_chorus on ng) (if on then path @ [Stage ChorusStage] else path)"
proof (cases on)
  case False
  with w show ?thesis by (simp add: route_chorus_def split_def)
next
  case True
  from w obtain cur g where ng: "ng = (cur, g)" and r: "routed n (set (edges g)) cur path"
    and n: "n \<le> nextId g" and t: "tidy g"
    and c: "cur \<in> set owned_nodes \<or> sum_below (nextId g) cur"
    by (rule wired_cases)
  let ?k = "nextId g"
  let ?G = "{(cur, ChorusDry), (cur, ChorusDelay), (ChorusDelay, ChorusFeedback),
             (ChorusFeedback, ChorusDelay), (ChorusDelay, ChorusWet),
             (ChorusDry, ChorusSum ?k), (ChorusWet, ChorusSum ?k)}"
  let ?S = "{ChorusDry, ChorusDelay, ChorusFeedback, ChorusWet, ChorusSum ?k}"
  let ?g' = "snd (route_chorus True (cur, g))"
  have 1: "(cur, ChorusDry) \<in> ?G\<^sup>*" by (rule r_into_rtrancl) simp
  have 2: "(cur, ChorusDelay) \<in> ?G\<^sup>*" by (rule r_into_rtrancl) simp
  have 3: "(cur, ChorusFeedback) \<in> ?G\<^sup>*" by (rule rtrancl_into_rtrancl [OF 2]) simp
  have 4: "(cur, ChorusWet) \<in> ?G\<^sup>*" by (rule rtrancl_into_rtrancl [OF 2]) simp
  have 5: "(cur, ChorusSum ?k) \<in> ?G\<^sup>*" by (rule rtrancl_into_rtrancl [OF 1]) simp
  have GR: "\<forall>x \<in> ?S. (cur, x) \<in> ?G\<^sup>*" using 1 2 3 4 5 by blast
  have S: "\<forall>x \<in> ?S. owner x = Stage ChorusStage \<and> \<not> sum_below n x" using n by simp
  have G: "\<forall>e \<in> ?G. (fst e = cur \<or> fst e \<in> ?S) \<and> snd e \<in> ?S" by simp
  have G1: "\<exists>b. (cur, b) \<in> ?G" by blast
  have "routed n (set (edges g) \<union> ?G) (ChorusSum ?k) (path @ [Stage ChorusStage])"
    using r X S G G1 GR by (rule attach) simp
  moreover have "set (edges ?g') = set (edges g) \<union> ?G"
    by (simp add: route_chorus_def Let_def split_def connect_simps createGain_simps) blast
  moreover have "fst (route_chorus True (cur, g)) = ChorusSum ?k"
    by (simp add: route_chorus_def Let_def split_def connect_simps createGain_simps)
  moreover have "nextId ?g' = Suc ?k"
    by (simp add: route_chorus_def Let_def split_def connect_simps createGain_simps)
  moreover have "tidy ?g'"
    unfolding route_chorus_def Let_def split_def snd_conv fst_conv if_True
    using t c
    by (intro tidy_connect tidy_createGain)
       (simp_all add: owned_simps connect_simps createGain_simps)
  ultimately show ?thesis
    using True n by (simp add: ng wired_def)
qed

lemma route_delay_wired:
  assumes w: "wired n ng path" and X: "Stage DelayStage \<notin> set path"
  shows "wired n (route_delay on ng) (if on then path @ [Stage DelayStage] else path)"
proof (cases on)
  case False
  with w show ?thesis by (simp add: route_delay_def split_def)
next
  case True
  from w obtain cur g where ng: "ng = (cur, g)" and r: "routed n (set (edges g)) cur path"
    and n: "n \<le> nextId g" and t: "tidy g"
    and c: "cur \<in> set owned_nodes \<or> sum_below (nextId g) cur"
    by (rule wired_cases)
  let ?k = "nextId g"
  let ?G = "{(cur, DelayDry), (cur, DelayDelay), (DelayDelay, DelayFeedback),
             (DelayFeedback, DelayDelay), (DelayDelay, DelayWet),
             (DelayDry, DelaySum ?k), (DelayWet, DelaySum ?k)}"
  let ?S = "{DelayDry, DelayDelay, DelayFeedback, DelayWet, DelaySum ?k}"
  let ?g' = "snd (route_delay True (cur, g))"
  have 1: "(cur, DelayDry) \<in> ?G\<^sup>*" by (rule r_into_rtrancl) simp
  have 2: "(cur, DelayDelay) \<in> ?G\<^sup>*" by (rule r_into_rtrancl) simp
  have 3: "(cur, DelayFeedback) \<in> ?G\<^sup>*" by (rule rtrancl_into_rtrancl [OF 2]) simp
  have 4: "(cur, DelayWet) \<in> ?G\<^sup>*" by (rule rtrancl_into_rtrancl [OF 2]) simp
  have 5: "(cur, DelaySum ?k) \<in> ?G\<^sup>*" by (rule rtrancl_into_rtrancl [OF 1]) simp
  have GR: "\<forall>x \<in> ?S. (cur, x) \<in> ?G\<^sup>*" using 1 2 3 4 5 by blast
  have S: "\<forall>x \<in> ?S. owner x = Stage DelayStage \<and> \<not> sum_below n x" using n by simp
  have G: "\<forall>e \<in> ?G. (fst e = cur \<or> fst e \<in> ?S) \<and> snd e \<in> ?S" by simp
  have G1: "\<exists>b. (cur, b) \<in> ?G" by blast
  have "routed n (set (edges g) \<union> ?G) (DelaySum ?k) (path @ [Stage DelayStage])"
    using r X S G G1 GR by (rule attach) simp
  moreover have "set (edges ?g') = set (edges g) \<union> ?G"
    by (simp add: route_delay_def Let_def split_def connect_simps createGain_simps) blast
  moreover have "fst (route_delay True (cur, g)) = DelaySum ?k"
    by (simp add: route_delay_def Let_def split_def connect_simps createGain_simps)
  moreover have "nextId ?g' = Suc ?k"
    by (simp add: route_delay_def Let_def split_def connect_simps createGain_simps)
  moreover have "tidy ?g'"
    unfolding route_delay_def Let_def split_def snd_conv fst_conv if_True
    using t c
    by (intro tidy_connect tidy_createGain)
       (simp_all add: owned_simps connect_simps createGain_simps)
  ultimately show ?thesis
    using True n by (simp add: ng wired_def)
qed

lemma route_reverb_wired:
  assumes w: "wired n ng path" and X: "Stage ReverbStage \<notin> set path"
  shows "wired n (route_reverb on ng) (if on then path @ [Stage ReverbStage] else path)"
proof (cases on)
  case False
  with w show ?thesis by (simp add: route_reverb_def split_def)
next
  case True
  from w obtain cur g where ng: "ng = (cur, g)" and r: "routed n (set (edges g)) cur path"
    and n: "n \<le> nextId g" and t: "tidy g"
    and c: "cur \<in> set owned_nodes \<or> sum_below (nextId g) cur"
    by (rule wired_cases)
  let ?k = "nextId g"
  let ?G = "{(cur, ReverbDry), (cur, ReverbConvolver), (ReverbConvolver, ReverbWet),
             (ReverbDry, ReverbSum ?k), (ReverbWet, ReverbSum ?k)}"
  let ?S = "{ReverbDry, ReverbConvolver, ReverbWet, ReverbSum ?k}"
  let ?g' = "snd (route_reverb True (cur, g))"
  have 1: "(cur, ReverbDry) \<in> ?G\<^sup>*" by (rule r_into_rtrancl) simp
  have 2: "(cur, ReverbConvolver) \<in> ?G\<^sup>*" by (rule r_into_rtrancl) simp
  have 3: "(cur, ReverbWet) \<in> ?G\<^sup>*" by (rule rtrancl_into_rtrancl [OF 2]) simp
  have 4: "(cur, ReverbSum ?k) \<in> ?G\<^sup>*" by (rule rtrancl_into_rtrancl [OF 1]) simp
  have GR: "\<forall>x \<in> ?S. (cur, x) \<in> ?G\<^sup>*" using 1 2 3 4 by blast
  have S: "\<forall>x \<in> ?S. owner x = Stage ReverbStage \<and> \<not> sum_below n x" using n by simp
  have G: "\<forall>e \<in> ?G. (fst e = cur \<or> fst e \<in> ?S) \<and> snd e \<in> ?S" by simp
  have G1: "\<exists>b. (cur, b) \<in> ?G" by blast
  have "routed n (set (edges g) \<union> ?G) (ReverbSum ?k) (path @ [Stage ReverbStage])"
    using r X S G G1 GR by (rule attach) simp
  moreover have "set (edges ?g') = set (edges g) \<union> ?G"
    by (simp add: route_reverb_def Let_def split_def connect_simps createGain_simps) blast
  moreover have "fst (route_reverb True (cur, g)) = ReverbSum ?k"
    by (simp add: route_reverb_def Let_def split_def connect_simps createGain_simps)
  moreover have "nextId ?g' = Suc ?k"
    by (simp add: route_reverb_def Let_def split_def connect_simps createGain_simps)
  moreover have "tidy ?g'"
    unfolding route_reverb_def Let_def split_def snd_conv fst_conv if_True
    using t c
    by (intro tidy_connect tidy_createGain)
       (simp_all add: owned_simps connect_simps createGain_simps)
  ultimately show ?thesis
    using True n by (simp add: ng wired_def)
qed

lemma wire_filters_simps:
  "fst (wire_filters fs (p, g)) = last (p # fs)"
  "set (edges (snd (wire_filters fs (p, g)))) = set (edges g) \<union> chain_edges p fs"
  "nextId (snd (wire_filters fs (p, g))) = nextId g"
  by (induction fs arbitrary: p g) (simp_all add: connect_simps)

lemma chain_edges_nodes:
  "e \<in> chain_edges p fs \<Longrightarrow> fst e \<in> insert p (set fs) \<and> snd e \<in> set fs"
  by (induction fs arbitrary: p) auto

lemma chain_edges_reach: "x \<in> set fs \<Longrightarrow> (p, x) \<in> (chain_edges p fs)\<^sup>*"
proof (induction fs arbitrary: p)
  case Nil
  then show ?case by simp
next
  case (Cons f fs)
  have pf: "(p, f) \<in> (chain_edges p (f # fs))\<^sup>*" by (rule r_into_rtrancl) simp
  show ?case
  proof (cases "x = f")
    case True
    with pf show ?thesis by simp
  next
    case False
    with Cons.prems have "x \<in> set fs" by simp
    then have "(f, x) \<in> (chain_edges f fs)\<^sup>*" by (rule Cons.IH)
    then have "(f, x) \<in> (chain_edges p (f # fs))\<^sup>*"
      by (rule rtrancl_mono [THEN subsetD, rotated]) auto
    with pf show ?thesis by (rule rtrancl_trans)
  qed
qed

lemma tidy_wire_filters:
  "tidy g \<Longrightarrow> p \<in> set owned_nodes \<Longrightarrow> set fs \<subseteq> set owned_nodes \<Longrightarrow>
   tidy (snd (wire_filters fs (p, g)))"
  by (induction fs arbitrary: p g) (simp_all add: tidy_connect)

lemma allFilters_owner:
  "x \<in> set allFilters \<Longrightarrow> owner x = Stage PhaserStage \<and> \<not> sum_below n x"
  by (auto simp add: allFilters_def)

lemma route_phaser_wired:
  assumes w: "wired n ng path" and X: "Stage PhaserStage \<notin> set path"
  shows "wired n (route_phaser on ng) (if on then path @ [Stage PhaserStage] else path)"
proof (cases on)
  case False
  with w show ?thesis by (simp add: route_phaser_def split_def)
next
  case True
  from w obtain cur g where ng: "ng = (cur, g)" and r: "routed n (set (edges g)) cur path"
    and n: "n \<le> nextId g" and t: "tidy g"
    and c: "cur \<in> set owned_nodes \<or> sum_below (nextId g) cur"
    by (rule wired_cases)
  let ?k = "nextId g"
  let ?l = "last (PhaserInput # allFilters)"
  let ?C = "chain_edges PhaserInput allFilters"
  let ?G = "{(cur, PhaserDry), (cur, PhaserInput), (?l, PhaserOutput),
             (PhaserOutput, PhaserFeedback), (PhaserFeedback, PhaserInput),
             (PhaserOutput, PhaserWet), (PhaserDry, PhaserSum ?k), (PhaserWet, PhaserSum ?k)}
            \<union> ?C"
  let ?S = "{PhaserDry, PhaserInput, PhaserOutput, PhaserFeedback, PhaserWet, PhaserSum ?k}
            \<union> set allFilters"
  let ?g' = "snd (route_phaser True (cur, g))"
  have l: "?l \<in> insert PhaserInput (set allFilters)"
    by (cases "allFilters = []") simp_all
  have 1: "(cur, PhaserDry) \<in> ?G\<^sup>*" by (rule r_into_rtrancl) simp
  have 2: "(cur, PhaserInput) \<in> ?G\<^sup>*" by (rule r_into_rtrancl) simp
  have f: "(cur, x) \<in> ?G\<^sup>*" if "x \<in> set allFilters" for x
  proof -
    from that have "(PhaserInput, x) \<in> ?C\<^sup>*" by (rule chain_edges_reach)
    then have "(PhaserInput, x) \<in> ?G\<^sup>*"
      by (rule rtrancl_mono [THEN subsetD, rotated]) blast
    with 2 show ?thesis by (rule rtrancl_trans)
  qed
  have 3: "(cur, ?l) \<in> ?G\<^sup>*" using l 2 f by blast
  have 4: "(cur, PhaserOutput) \<in> ?G\<^sup>*" by (rule rtrancl_into_rtrancl [OF 3]) simp
  have 5: "(cur, PhaserFeedback) \<in> ?G\<^sup>*" by (rule rtrancl_into_rtrancl [OF 4]) simp
  have 6: "(cur, PhaserWet) \<in> ?G\<^sup>*" by (rule rtrancl_into_rtrancl [OF 4]) simp
  have 7: "(cur, PhaserSum ?k) \<in> ?G\<^sup>*" by (rule rtrancl_into_rtrancl [OF 1]) simp
  have GR: "\<forall>x \<in> ?S. (cur, x) \<in> ?G\<^sup>*" using 1 2 4 5 6 7 f by blast
  have S: "\<forall>x \<in> ?S. owner x = Stage PhaserStage \<and> \<not> sum_below n x"
    using n allFilters_owner by auto
  have G: "\<forall>e \<in> ?G. (fst e = cur \<or> fst e \<in> ?S) \<and> snd e \<in> ?S"
    using l chain_edges_nodes [of _ PhaserInput allFilters] by auto
  have G1: "\<exists>b. (cur, b) \<in> ?G" by blast
  have "routed n (set (edges g) \<union> ?G) (PhaserSum ?k) (path @ [Stage PhaserStage])"
    using r X S G G1 GR by (rule attach) simp
  moreover have "set (edges ?g') = set (edges g) \<union> ?G"
    by (simp add: route_phaser_def Let_def split_def connect_simps createGain_simps
        wire_filters_simps del: last.simps) blast
  moreover have "fst (route_phaser True (cur, g)) = PhaserSum ?k"
    by (simp add: route_phaser_def Let_def split_def connect_simps createGain_simps
        wire_filters_simps del: last.simps)
  moreover have "nextId ?g' = Suc ?k"
    by (simp add: route_phaser_def Let_def split_def connect_simps createGain_simps
        wire_filters_simps del: last.simps)
  moreover have "tidy ?g'"
    unfolding route_phaser_def Let_def split_def snd_conv fst_conv if_True
    using t c l
    by (intro tidy_connect tidy_createGain tidy_wire_filters)
       (auto simp add: owned_simps connect_simps createGain_simps wire_filters_simps
          simp del: last.simps)
  ultimately show ?thesis
    using True n by (simp add: ng wired_def)
qed

lemma stage_links_eq: "stage_links g = links (set (edges g))"
  by (simp add: stage_links_def links_def carries_def reach_def)

lemma carries_eq: "carries g = reach (set (edges g))"
  by (simp add: carries_def reach_def)

lemma rebuild_routed:
  assumes t: "tidy g"
  shows "routed (nextId g) (set (edges (rebuild st g))) OutputNode (series_path st) \<and>
         tidy (rebuild st g)"
proof -
  let ?n = "nextId g"
  let ?p1 = "if filterOn st then [Source] @ [Stage FilterStage] else [Source]"
  let ?p2 = "if chorusOn st then ?p1 @ [Stage ChorusStage] else ?p1"
  let ?p3 = "if phaserOn st then ?p2 @ [Stage PhaserStage] else ?p2"
  let ?p4 = "if delayOn st then ?p3 @ [Stage DelayStage] else ?p3"
  let ?p5 = "if reverbOn st then ?p4 @ [Stage ReverbStage] else ?p4"
  let ?p6 = "if limiterOn st then ?p5 @ [Stage LimiterStage] else ?p5"
  let ?ng1 = "route_filter (filterOn st) (InputNode, disconnectAll g)"
  let ?ng2 = "route_chorus (chorusOn st) ?ng1"
  let ?ng3 = "route_phaser (phaserOn st) ?ng2"
  let ?ng4 = "route_delay (delayOn st) ?ng3"
  let ?ng5 = "route_reverb (reverbOn st) ?ng4"
  let ?ng6 = "route_limiter (limiterOn st) ?ng5"
  have w0: "wired ?n (InputNode, disconnectAll g) [Source]"
    using t by (rule disconnectAll_wired)
  have w1: "wired ?n ?ng1 ?p1" by (rule route_filter_wired [OF w0]) simp
  have w2: "wired ?n ?ng2 ?p2" by (rule route_chorus_wired [OF w1]) simp
  have w3: "wired ?n ?ng3 ?p3" by (rule route_phaser_wired [OF w2]) simp
  have w4: "wired ?n ?ng4 ?p4" by (rule route_delay_wired [OF w3]) simp
  have w5: "wired ?n ?ng5 ?p5" by (rule route_reverb_wired [OF w4]) simp
  have w6: "wired ?n ?ng6 ?p6" by (rule route_limiter_wired [OF w5]) simp
  from w6 obtain cur g6 where ng: "?ng6 = (cur, g6)"
    and r: "routed ?n (set (edges g6)) cur ?p6"
    and t6: "tidy g6" and c: "cur \<in> set owned_nodes \<or> sum_below (nextId g6) cur"
    by (rule wired_cases)
  have "Sink \<notin> set ?p6" by simp
  with r have "routed ?n (set (edges g6) \<union> {(cur, OutputNode)}) OutputNode (?p6 @ [Sink])"
    by (rule attach [where S = "{OutputNode}"]) auto
  moreover have "?p6 @ [Sink] = series_path st"
    by (simp add: series_path_def canonical_order_def)
  moreover have "rebuild st g = connect cur OutputNode g6"
    using ng by (simp add: rebuild_def Let_def)
  moreover have "tidy (connect cur OutputNode g6)" using t6 c by (rule tidy_connect)
  ultimately show ?thesis by (simp add: connect_simps)
qed

lemma tidy_foldl: "tidy g \<Longrightarrow> tidy (foldl (\<lambda>g state. rebuild state g) g states)"
  by (induction states arbitrary: g) (simp_all add: rebuild_routed)

lemma tidy_after_rebuilds: "tidy (after_rebuilds states)"
  unfolding after_rebuilds_def by (rule tidy_foldl) (simp add: tidy_def new_graph_def)

lemma series_path_slots:
  "set (series_path state) = {Source, Sink} \<union> Stage ` {s. enabled state s}"
proof -
  have "set (filter (enabled state) canonical_order) = {s. enabled state s}"
  proof -
    have "s \<in> set canonical_order" for s
      by (cases s) (simp_all add: canonical_order_def)
    then show ?thesis by auto
  qed
  then show ?thesis by (auto simp add: series_path_def)
qed

lemma series_path_distinct: "distinct (series_path state)"
  by (auto simp add: series_path_def canonical_order_def distinct_map inj_on_def)

text \<open>
  Claim C4.  After any history of rebuilds of a new chain, a rebuild for a state leaves
  exactly one series path from the chain input to the chain output, seen stage by stage:
  the links between slots along the connections that carry the input's signal are the
  successive pairs of the list that starts with the source, continues with the enabled
  stages in the canonical order Filter, Chorus, Phaser, Delay, Reverb, Limiter and ends with
  the sink.  The chain output carries signal.  The list has no repetition, its elements are
  the source, the sink and exactly the enabled stages, and no node of a disabled stage
  carries signal.  Gain nodes that earlier rebuilds created for the dry/wet sums keep their
  outgoing connections, but nothing reaches them.
\<close>

theorem rebuild_is_series_chain:
  "stage_links (rebuild state (after_rebuilds states)) = path_links (series_path state)
   \<and> OutputNode \<in> carries (rebuild state (after_rebuilds states))
   \<and> owner ` carries (rebuild state (after_rebuilds states)) \<subseteq> set (series_path state)
   \<and> series_path state = Source # map Stage (filter (enabled state) canonical_order) @ [Sink]
   \<and> distinct (series_path state)
   \<and> set (series_path state) = {Source, Sink} \<union> Stage ` {s. enabled state s}"
proof -
  let ?g = "after_rebuilds states"
  have "routed (nextId ?g) (set (edges (rebuild state ?g))) OutputNode (series_path state)"
    using rebuild_routed [OF tidy_after_rebuilds] by blast
  then have "links (set (edges (rebuild state ?g))) = path_links (series_path state)"
    and "OutputNode \<in> reach (set (edges (rebuild state ?g)))"
    and "\<forall>x \<in> reach (set (edges (rebuild state ?g))). owner x \<in> set (series_path state)"
    by (simp_all add: routed_def)
  then show ?thesis
    by (auto simp add: stage_links_eq carries_eq series_path_distinct series_path_slots)
       (simp add: series_path_def)
qed

text \<open>
  The scenario of enabling Filter, then Reverb, then Delay, and then disabling Filter:
  Delay and Reverb stay in series, in the canonical order.
\<close>

theorem rebuild_is_series_chain_witness:
  "stage_links
     (rebuild (DEFAULT_FX\<lparr>reverbOn := True, delayOn := True\<rparr>)
        (after_rebuilds
           [DEFAULT_FX\<lparr>filterOn := True\<rparr>,
            DEFAULT_FX\<lparr>filterOn := True, reverbOn := True\<rparr>,
            DEFAULT_FX\<lparr>filterOn := True, reverbOn := True, delayOn := True\<rparr>]))
   = {(Source, Stage DelayStage), (Stage DelayStage, Stage ReverbStage), (Stage ReverbStage, Sink)}"
  using rebuild_is_series_chain
    [of "DEFAULT_FX\<lparr>reverbOn := True, delayOn := True\<rparr>"
        "[DEFAULT_FX\<lparr>filterOn := True\<rparr>,
          DEFAULT_FX\<lparr>filterOn := True, reverbOn := True\<rparr>,
          DEFAULT_FX\<lparr>filterOn := True, reverbOn := True, delayOn := True\<rparr>]"]
  by (simp add: series_path_def path_links_def canonical_order_def DEFAULT_FX_def)

subsection \<open>The stage count of the Phaser\<close>

lemma rebuild_ignores_stages: "rebuild (state\<lparr>phaserStages := st\<rparr>) g = rebuild state g"
  by (simp add: rebuild_def)

lemma route_edges_mono:
  "set (edges (snd ng)) \<subseteq> set (edges (snd (route_filter on ng)))"
  "set (edges (snd ng)) \<subseteq> set (edges (snd (route_chorus on ng)))"
  "set (edges (snd ng)) \<subseteq> set (edges (snd (route_delay on ng)))"
  "set (edges (snd ng)) \<subseteq> set (edges (snd (route_reverb on ng)))"
  "set (edges (snd ng)) \<subseteq> set (edges (snd (route_limiter on ng)))"
  by (auto simp add: route_filter_def route_chorus_def route_delay_def route_reverb_def
      route_limiter_def Let_def split_def connect_simps createGain_simps)

lemma route_phaser_chain:
  "chain_edges PhaserInput allFilters \<subseteq> set (edges (snd (route_phaser True ng)))"
  by (auto simp add: route_phaser_def Let_def split_def connect_simps createGain_simps
      wire_filters_simps simp del: last.simps)

lemma rebuild_phaser_chain:
  assumes "phaserOn state"
  shows "chain_edges PhaserInput allFilters \<subseteq> set (edges (rebuild state g))"
proof -
  let ?ng2 = "route_chorus (chorusOn state) (route_filter (filterOn state) (InputNode, disconnectAll g))"
  let ?ng3 = "route_phaser True ?ng2"
  let ?ng4 = "route_delay (delayOn state) ?ng3"
  let ?ng5 = "route_reverb (reverbOn state) ?ng4"
  let ?ng6 = "route_limiter (limiterOn state) ?ng5"
  have "chain_edges PhaserInput allFilters \<subseteq> set (edges (snd ?ng3))"
    by (rule route_phaser_chain)
  also have "\<dots> \<subseteq> set (edges (snd ?ng4))" by (rule route_edges_mono)
  also have "\<dots> \<subseteq> set (edges (snd ?ng5))" by (rule route_edges_mono)
  also have "\<dots> \<subseteq> set (edges (snd ?ng6))" by (rule route_edges_mono)
  also have "\<dots> \<subseteq> set (edges (rebuild state g))"
    using assms by (auto simp add: rebuild_def Let_def split_def connect_simps)
  finally show ?thesis .
qed

text \<open>
  Claim C6, as amended.  The stage count has no influence at all.  \<^verbatim>\<open>Phaser.update\<close> gives
  the same Phaser for any two stage counts; after any history of updates the Phaser has 8
  filters, and an update sets each of the 8 LFO gains to \<open>3000 * depth\<close>; a rebuild with the
  Phaser on wires the chain of the 8 filters of \<^verbatim>\<open>allFilters\<close>, and no rebuild depends on
  \<^verbatim>\<open>phaserStages\<close>.
\<close>

theorem phaser_stage_count_is_ignored:
  "Phaser_update rate d st fb mix ph = Phaser_update rate d st' fb mix ph
   \<and> length (filters (phaser_after us)) = 8
   \<and> lfoGains (Phaser_update rate d st fb mix (phaser_after us)) = replicate 8 (3000 * d)
   \<and> length allFilters = 8
   \<and> chain_edges PhaserInput allFilters
        \<subseteq> set (edges (rebuild (state\<lparr>phaserOn := True, phaserStages := st\<rparr>) g))
   \<and> rebuild (state\<lparr>phaserStages := st\<rparr>) g = rebuild state g"
  using phaser_after_lengths [of us]
    rebuild_phaser_chain [of "state\<lparr>phaserOn := True, phaserStages := st\<rparr>" g]
  by (simp add: Phaser_update_lfoGains rebuild_ignores_stages allFilters_def MAX_STAGES_def)
     (simp add: Phaser_update_def)

text \<open>
  Claim C6 as stated fails in its second half: the stage count does not scale the LFO
  modulation depth.  With rate 0.5, depth 0.7, feedback 0.3 and mix 0.5, the updates with 2
  stages and with 8 stages both set every LFO gain to 2100 and give the same Phaser.
\<close>

theorem phaser_depth_same_for_2_and_8_stages:
  "lfoGains (Phaser_update (1 / 2) (7 / 10) 2 (3 / 10) (1 / 2) new_Phaser) = replicate 8 2100 \<and>
   lfoGains (Phaser_update (1 / 2) (7 / 10) 8 (3 / 10) (1 / 2) new_Phaser) = replicate 8 2100 \<and>
   Phaser_update (1 / 2) (7 / 10) 2 (3 / 10) (1 / 2) new_Phaser =
   Phaser_update (1 / 2) (7 / 10) 8 (3 / 10) (1 / 2) new_Phaser"
proof -
  have "length (filters new_Phaser) \<le> length (lfoGains new_Phaser)"
    by (simp add: new_Phaser_def)
  then have "lfoGains (Phaser_update (1 / 2) (7 / 10) st (3 / 10) (1 / 2) new_Phaser) =
      replicate 8 2100" for st
    by (simp add: Phaser_update_lfoGains) (simp add: new_Phaser_def MAX_STAGES_def)
  then show ?thesis by (simp add: Phaser_update_def)
qed

end
